theory Spec2Isabelle
  imports Main "HOL-Library.Word"
begin

unbundle bit_operations_syntax

section \<open>JavaScript values used by the decoder\<close>

text \<open>
  The decoder of \<^verbatim>\<open>index.js\<close> works on plain JavaScript arrays of numbers. Every number
  it ever handles is an integer or \<^verbatim>\<open>NaN\<close> (\<^verbatim>\<open>parseInt\<close> produces nothing else, and
  the bitwise operators return 32-bit integers), so a number is \<open>NaN\<close> or \<open>Num i\<close>.
  Negative zero, which \<^verbatim>\<open>parseInt("-0", 16)\<close> produces, is identified with \<open>Num 0\<close>:
  no operation of the program tells them apart.

  Strings are lists of 8-bit characters: the code units U+0000 to U+00FF.
\<close>

datatype jsnum = NaN | Num int

datatype error =
    TypeError
  | Error string

text \<open>ToInt32 of ECMAScript: \<^verbatim>\<open>NaN\<close> becomes 0, an integer is reduced modulo \<open>2 ^ 32\<close>
  and read as two's complement.\<close>

definition toInt32 :: "jsnum \<Rightarrow> int" where
  "toInt32 x = (case x of NaN \<Rightarrow> 0 | Num i \<Rightarrow> sint (word_of_int i :: 32 word))"

text \<open>The operators \<^verbatim>\<open><<\<close>, \<^verbatim>\<open>>>\<close>, \<^verbatim>\<open>|\<close> and \<^verbatim>\<open>&\<close>: both operands go through
  ToInt32, the shift count is taken modulo 32, and the result is a signed 32-bit integer.\<close>

definition js_shl :: "jsnum \<Rightarrow> nat \<Rightarrow> jsnum" where
  "js_shl x n = Num (sint (word_of_int (push_bit (n mod 32) (toInt32 x)) :: 32 word))"

definition js_sar :: "jsnum \<Rightarrow> nat \<Rightarrow> jsnum" where
  "js_sar x n = Num (drop_bit (n mod 32) (toInt32 x))"

definition js_bor :: "jsnum \<Rightarrow> jsnum \<Rightarrow> jsnum" where
  "js_bor x y = Num (toInt32 x OR toInt32 y)"

definition js_band :: "jsnum \<Rightarrow> jsnum \<Rightarrow> jsnum" where
  "js_band x y = Num (toInt32 x AND toInt32 y)"

text \<open>Multiplication of numbers; the products of the program stay far below \<open>2 ^ 53\<close>,
  where doubles are exact.\<close>

definition js_mul :: "jsnum \<Rightarrow> jsnum \<Rightarrow> jsnum" where
  "js_mul x y = (case (x, y) of (Num a, Num b) \<Rightarrow> Num (a * b) | _ \<Rightarrow> NaN)"

text \<open>\<^verbatim>\<open>Array.prototype.slice\<close> with one argument (\<open>slice_start\<close>) and with two
  (\<open>slice_range\<close>): \<^verbatim>\<open>NaN\<close> counts as 0, a negative index counts from the end, and both
  indices are clamped to the array.\<close>

definition relIndex :: "nat \<Rightarrow> jsnum \<Rightarrow> nat" where
  "relIndex len x =
     (case x of
        NaN \<Rightarrow> 0
      | Num i \<Rightarrow> (if i < 0 then nat (max (int len + i) 0) else min (nat i) len))"

definition slice_start :: "'a list \<Rightarrow> jsnum \<Rightarrow> 'a list" where
  "slice_start xs start = drop (relIndex (length xs) start) xs"

definition slice_range :: "'a list \<Rightarrow> jsnum \<Rightarrow> jsnum \<Rightarrow> 'a list" where
  "slice_range xs start stop =
     (let k = relIndex (length xs) start; e = relIndex (length xs) stop
      in take (e - k) (drop k xs))"

section \<open>Characters and strings\<close>

definition code :: "char \<Rightarrow> nat" where
  "code c = of_char c"

text \<open>The class \<^verbatim>\<open>\s\<close> (white space and line terminators) and the line terminators, which
  \<^verbatim>\<open>.\<close> does not match, among the characters below U+0100.\<close>

definition isWhiteSpace :: "char \<Rightarrow> bool" where
  "isWhiteSpace c = (code c \<in> {9, 10, 11, 12, 13, 32, 160})"

definition isLineTerminator :: "char \<Rightarrow> bool" where
  "isLineTerminator c = (code c \<in> {10, 13})"

definition toLowerCase_char :: "char \<Rightarrow> char" where
  "toLowerCase_char c =
     (let n = code c
      in if (65 \<le> n \<and> n \<le> 90) \<or> (192 \<le> n \<and> n \<le> 222 \<and> n \<noteq> 215)
         then char_of (n + 32) else c)"

definition toLowerCase :: "string \<Rightarrow> string" where
  "toLowerCase s = map toLowerCase_char s"

text \<open>\<^verbatim>\<open>toUpperCase\<close> on ASCII; the program applies it to the digits of a number only.\<close>

definition toUpperCase_char :: "char \<Rightarrow> char" where
  "toUpperCase_char c =
     (let n = code c in if 97 \<le> n \<and> n \<le> 122 then char_of (n - 32) else c)"

definition toUpperCase :: "string \<Rightarrow> string" where
  "toUpperCase s = map toUpperCase_char s"

definition padStart :: "nat \<Rightarrow> char \<Rightarrow> string \<Rightarrow> string" where
  "padStart n c s = replicate (n - length s) c @ s"

fun join :: "string \<Rightarrow> string list \<Rightarrow> string" where
  "join sep [] = []"
| "join sep [x] = x"
| "join sep (x # y # ys) = x @ sep @ join sep (y # ys)"

subsection \<open>Numbers to text: \<^verbatim>\<open>Number.prototype.toString(radix)\<close>\<close>

definition digitChar :: "nat \<Rightarrow> char" where
  "digitChar d = (if d < 10 then char_of (48 + d) else char_of (87 + d))"

fun digits :: "nat \<Rightarrow> nat \<Rightarrow> string" where
  "digits r n =
     (if r < 2 \<or> n < r then [digitChar n] else digits r (n div r) @ [digitChar (n mod r)])"

declare digits.simps [simp del]

definition toString :: "nat \<Rightarrow> jsnum \<Rightarrow> string" where
  "toString r x =
     (case x of
        NaN \<Rightarrow> ''NaN''
      | Num i \<Rightarrow> (if i < 0 then CHR ''-'' # digits r (nat (- i)) else digits r (nat i)))"

subsection \<open>Text to numbers: \<^verbatim>\<open>parseInt(s, 16)\<close>\<close>

definition hexDigitValue :: "char \<Rightarrow> nat option" where
  "hexDigitValue c =
     (let n = code c
      in if 48 \<le> n \<and> n \<le> 57 then Some (n - 48)
         else if 97 \<le> n \<and> n \<le> 102 then Some (n - 87)
         else if 65 \<le> n \<and> n \<le> 70 then Some (n - 55)
         else None)"

definition isHexDigit :: "char \<Rightarrow> bool" where
  "isHexDigit c = (hexDigitValue c \<noteq> None)"

definition hexValue :: "string \<Rightarrow> nat" where
  "hexValue s = foldl (\<lambda>acc c. 16 * acc + the (hexDigitValue c)) 0 s"

text \<open>\<^verbatim>\<open>parseInt\<close> with radix 16: leading white space is skipped, one sign is read, one
  prefix \<^verbatim>\<open>0x\<close> or \<^verbatim>\<open>0X\<close> is skipped, and the longest run of hexadecimal digits that
  follows is the value; what comes after it is ignored, and an empty run gives \<^verbatim>\<open>NaN\<close>.\<close>

definition parseInt16 :: "string \<Rightarrow> jsnum" where
  "parseInt16 s =
     (let t = dropWhile isWhiteSpace s;
          neg = (t \<noteq> [] \<and> hd t = CHR ''-'');
          t1 = (if t \<noteq> [] \<and> (hd t = CHR ''+'' \<or> hd t = CHR ''-'') then tl t else t);
          t2 = (if take 2 t1 = ''0x'' \<or> take 2 t1 = ''0X'' then drop 2 t1 else t1);
          z = takeWhile isHexDigit t2
      in if z = [] then NaN
         else Num ((if neg then - 1 else 1) * int (hexValue z)))"

section \<open>Helper functions of \<^verbatim>\<open>index.js\<close>\<close>

text \<open>\<^verbatim>\<open>bytes.map(b => b.toString(16).padStart(2, '0').toUpperCase()).join(':')\<close>\<close>

definition bytesToMAC :: "jsnum list \<Rightarrow> string" where
  "bytesToMAC bytes = join '':'' (map (\<lambda>b. toUpperCase (padStart 2 CHR ''0'' (toString 16 b))) bytes)"

text \<open>\<^verbatim>\<open>bytes.map(b => b.toString(10)).join('.')\<close>\<close>

definition bytesToIP :: "jsnum list \<Rightarrow> string" where
  "bytesToIP bytes = join ''.'' (map (toString 10) bytes)"

text \<open>\<^verbatim>\<open>hex.match(/.{1,2}/g)\<close>: the successive matches of one or two characters, greedy,
  none of them a line terminator. With no match at all the result is \<^verbatim>\<open>null\<close>.\<close>

fun match_pairs :: "string \<Rightarrow> string list" where
  "match_pairs [] = []"
| "match_pairs [c] = (if isLineTerminator c then [] else [c] # [])"
| "match_pairs (c # d # cs) =
     (if isLineTerminator c then match_pairs (d # cs)
      else if isLineTerminator d then [c] # match_pairs cs
      else [c, d] # match_pairs cs)"

text \<open>\<^verbatim>\<open>hex.match(/.{1,2}/g).map(b => parseInt(b, 16))\<close>: calling \<^verbatim>\<open>map\<close> on \<^verbatim>\<open>null\<close>
  throws a TypeError.\<close>

definition hexToBytes :: "string \<Rightarrow> error + jsnum list" where
  "hexToBytes hex =
     (case match_pairs hex of
        [] \<Rightarrow> Inl TypeError
      | m # ms \<Rightarrow> Inr (map parseInt16 (m # ms)))"

section \<open>The three parsers\<close>

text \<open>The objects the parsers return. A field that a bitwise operator computes is a 32-bit
  integer; \<open>ip_ttl\<close> and \<open>ip_protocol\<close> are array elements as they are.\<close>

record ethernet_frame =
  eth_destMAC :: string
  eth_srcMAC :: string
  eth_type :: jsnum
  eth_data :: "jsnum list"

record ipv4_packet =
  ip_version :: jsnum
  ip_ihl :: jsnum
  ip_dscp :: jsnum
  ip_ecn :: jsnum
  ip_totalLength :: jsnum
  ip_identification :: jsnum
  ip_flags :: jsnum
  ip_fragmentOffset :: jsnum
  ip_ttl :: jsnum
  ip_protocol :: jsnum
  ip_checksum :: jsnum
  ip_srcIP :: string
  ip_dstIP :: string
  ip_data :: "jsnum list"

record tcp_flags =
  urg :: bool
  ack :: bool
  psh :: bool
  rst :: bool
  syn :: bool
  fin :: bool

record tcp_segment =
  tcp_srcPort :: jsnum
  tcp_dstPort :: jsnum
  tcp_seqNum :: jsnum
  tcp_ackNum :: jsnum
  tcp_dataOffset :: jsnum
  tcp_flags :: tcp_flags
  tcp_windowSize :: jsnum
  tcp_tcpChecksum :: jsnum
  tcp_urgentPointer :: jsnum
  tcp_data :: "jsnum list"

text \<open>The three errors the parsers throw, under the names the specification gives them.\<close>

definition TruncatedFrame :: error where
  "TruncatedFrame = Error ''Frame too short for valid Ethernet header''"

definition TruncatedPacket :: error where
  "TruncatedPacket = Error ''Packet too short for valid IPv4 header''"

definition TruncatedSegment :: error where
  "TruncatedSegment = Error ''Segment too short for valid TCP header''"

text \<open>Every index read below comes after the length check of its parser, so \<open>bytes ! i\<close>
  is always a read inside the array.\<close>

definition parseEthernetFrame :: "jsnum list \<Rightarrow> error + ethernet_frame" where
  "parseEthernetFrame bytes =
     (if length bytes < 14 then Inl TruncatedFrame
      else Inr \<lparr>
        eth_destMAC = bytesToMAC (slice_range bytes (Num 0) (Num 6)),
        eth_srcMAC = bytesToMAC (slice_range bytes (Num 6) (Num 12)),
        eth_type = js_bor (js_shl (bytes ! 12) 8) (bytes ! 13),
        eth_data = slice_start bytes (Num 14) \<rparr>)"

definition parseIPv4Packet :: "jsnum list \<Rightarrow> error + ipv4_packet" where
  "parseIPv4Packet bytes =
     (if length bytes < 20 then Inl TruncatedPacket
      else
        let ihl = js_band (bytes ! 0) (Num 0x0F)
        in Inr \<lparr>
          ip_version = js_sar (bytes ! 0) 4,
          ip_ihl = ihl,
          ip_dscp = js_sar (bytes ! 1) 2,
          ip_ecn = js_band (bytes ! 1) (Num 0x03),
          ip_totalLength = js_bor (js_shl (bytes ! 2) 8) (bytes ! 3),
          ip_identification = js_bor (js_shl (bytes ! 4) 8) (bytes ! 5),
          ip_flags = js_sar (bytes ! 6) 5,
          ip_fragmentOffset = js_bor (js_shl (js_band (bytes ! 6) (Num 0x1F)) 8) (bytes ! 7),
          ip_ttl = bytes ! 8,
          ip_protocol = bytes ! 9,
          ip_checksum = js_bor (js_shl (bytes ! 10) 8) (bytes ! 11),
          ip_srcIP = bytesToIP (slice_range bytes (Num 12) (Num 16)),
          ip_dstIP = bytesToIP (slice_range bytes (Num 16) (Num 20)),
          ip_data = slice_start bytes (js_mul ihl (Num 4)) \<rparr>)"

text \<open>\<^verbatim>\<open>(flags & bit_mask) !== 0\<close>\<close>

definition flagSet :: "jsnum \<Rightarrow> int \<Rightarrow> bool" where
  "flagSet flags bit_mask = (js_band flags (Num bit_mask) \<noteq> Num 0)"

definition parseTCPSegment :: "jsnum list \<Rightarrow> error + tcp_segment" where
  "parseTCPSegment bytes =
     (if length bytes < 20 then Inl TruncatedSegment
      else
        let dataOffset = js_sar (bytes ! 12) 4;
            flags = js_band (bytes ! 13) (Num 0x3F)
        in Inr \<lparr>
          tcp_srcPort = js_bor (js_shl (bytes ! 0) 8) (bytes ! 1),
          tcp_dstPort = js_bor (js_shl (bytes ! 2) 8) (bytes ! 3),
          tcp_seqNum =
            js_bor (js_bor (js_bor (js_shl (bytes ! 4) 24) (js_shl (bytes ! 5) 16))
              (js_shl (bytes ! 6) 8)) (bytes ! 7),
          tcp_ackNum =
            js_bor (js_bor (js_bor (js_shl (bytes ! 8) 24) (js_shl (bytes ! 9) 16))
              (js_shl (bytes ! 10) 8)) (bytes ! 11),
          tcp_dataOffset = dataOffset,
          tcp_flags = \<lparr>
            urg = flagSet flags 0x20,
            ack = flagSet flags 0x10,
            psh = flagSet flags 0x08,
            rst = flagSet flags 0x04,
            syn = flagSet flags 0x02,
            fin = flagSet flags 0x01 \<rparr>,
          tcp_windowSize = js_bor (js_shl (bytes ! 14) 8) (bytes ! 15),
          tcp_tcpChecksum = js_bor (js_shl (bytes ! 16) 8) (bytes ! 17),
          tcp_urgentPointer = js_bor (js_shl (bytes ! 18) 8) (bytes ! 19),
          tcp_data = slice_start bytes (js_mul dataOffset (Num 4)) \<rparr>)"

section \<open>The pipeline of \<^verbatim>\<open>main\<close>\<close>

text \<open>
  \<^verbatim>\<open>main\<close> reads one line, decodes it layer by layer and prints each decoded layer. A run
  is the trace of what it did, in order (a parser called, a layer or a message printed),
  and the exception that ended it, if any. The last line of \<^verbatim>\<open>main\<close>, which prints the
  TCP data as text, is part of \<open>Print_tcp\<close>: \<^verbatim>\<open>Buffer.from\<close> of an array does not throw.
\<close>

datatype layer = Ethernet | IPv4 | TCP

datatype event =
    Call layer
  | Print_too_short
  | Print_ethernet ethernet_frame
  | Print_non_ipv4
  | Print_ipv4 ipv4_packet
  | Print_non_tcp
  | Print_tcp tcp_segment

record run =
  trace :: "event list"
  thrown :: "error option"

text \<open>Lines 106 to 163 of \<^verbatim>\<open>main\<close>: what happens once the bytes are there.\<close>

definition decode :: "jsnum list \<Rightarrow> run" where
  "decode bytes =
     (if length bytes < 14 then \<lparr>trace = [Print_too_short], thrown = None\<rparr>
      else
        (case parseEthernetFrame bytes of
           Inl e \<Rightarrow> \<lparr>trace = [Call Ethernet], thrown = Some e\<rparr>
         | Inr eth \<Rightarrow>
            (if eth_type eth \<noteq> Num 0x0800
             then \<lparr>trace = [Call Ethernet, Print_ethernet eth, Print_non_ipv4], thrown = None\<rparr>
             else
               (case parseIPv4Packet (eth_data eth) of
                  Inl e \<Rightarrow>
                    \<lparr>trace = [Call Ethernet, Print_ethernet eth, Call IPv4], thrown = Some e\<rparr>
                | Inr ip \<Rightarrow>
                   (if ip_protocol ip \<noteq> Num 6
                    then \<lparr>trace = [Call Ethernet, Print_ethernet eth, Call IPv4, Print_ipv4 ip,
                                    Print_non_tcp], thrown = None\<rparr>
                    else
                      (case parseTCPSegment (ip_data ip) of
                         Inl e \<Rightarrow>
                           \<lparr>trace = [Call Ethernet, Print_ethernet eth, Call IPv4, Print_ipv4 ip,
                                     Call TCP], thrown = Some e\<rparr>
                       | Inr tcp \<Rightarrow>
                           \<lparr>trace = [Call Ethernet, Print_ethernet eth, Call IPv4, Print_ipv4 ip,
                                     Call TCP, Print_tcp tcp], thrown = None\<rparr>))))))"

text \<open>\<^verbatim>\<open>(await rl.question(...)).replace(/\s+/g, '').toLowerCase()\<close>\<close>

definition clean :: "string \<Rightarrow> string" where
  "clean line = toLowerCase (filter (\<lambda>c. \<not> isWhiteSpace c) line)"

definition main :: "string \<Rightarrow> run" where
  "main line =
     (case hexToBytes (clean line) of
        Inl e \<Rightarrow> \<lparr>trace = [], thrown = Some e\<rparr>
      | Inr bytes \<Rightarrow> decode bytes)"

text \<open>A RawBuffer of the specification, a sequence of 8-bit unsigned values, as the array
  of numbers the parsers receive.\<close>

definition rawBuffer :: "8 word list \<Rightarrow> jsnum list" where
  "rawBuffer ws = map (\<lambda>w. Num (uint w)) ws"

section \<open>Hexadecimal text of a byte sequence\<close>

text \<open>
  The specification's side of the round trip between \<open>hexToBytes\<close> and \<open>bytesToMAC\<close>,
  written from its words and not from the code. \<open>hexOf h ws\<close> says that the string \<open>h\<close>
  is the bytes \<open>ws\<close> in hexadecimal, two digits for each byte, every digit in either case;
  \<open>colonHex ws\<close> is the bytes as upper-case pairs of digits with colons in between.
\<close>

definition lowerHexDigit :: "nat \<Rightarrow> char" where
  "lowerHexDigit d = ''0123456789abcdef'' ! d"

definition upperHexDigit :: "nat \<Rightarrow> char" where
  "upperHexDigit d = ''0123456789ABCDEF'' ! d"

definition hexDigitOf :: "char \<Rightarrow> nat \<Rightarrow> bool" where
  "hexDigitOf c d = (d < 16 \<and> (c = lowerHexDigit d \<or> c = upperHexDigit d))"

fun hexOf :: "string \<Rightarrow> 8 word list \<Rightarrow> bool" where
  "hexOf [] [] = True"
| "hexOf (a # b # cs) (w # ws) =
     (hexDigitOf a (unat w div 16) \<and> hexDigitOf b (unat w mod 16) \<and> hexOf cs ws)"
| "hexOf _ _ = False"

definition upperPair :: "8 word \<Rightarrow> string" where
  "upperPair w = [upperHexDigit (unat w div 16), upperHexDigit (unat w mod 16)]"

fun colonHex :: "8 word list \<Rightarrow> string" where
  "colonHex [] = []"
| "colonHex [w] = upperPair w"
| "colonHex (w # v # ws) = upperPair w @ CHR '':'' # colonHex (v # ws)"

text \<open>The unsigned big-endian 32-bit integer that four bytes form.\<close>

definition be32 :: "8 word \<Rightarrow> 8 word \<Rightarrow> 8 word \<Rightarrow> 8 word \<Rightarrow> int" where
  "be32 a b c d = 16777216 * uint a + 65536 * uint b + 256 * uint c + uint d"

section \<open>Example frames\<close>

text \<open>Scenario A of the specification: an Ethernet header alone, with etherType 0x88B5.\<close>

definition scenarioA :: "8 word list" where
  "scenarioA =
     [0xFF, 0xFF, 0xFF, 0xFF, 0xFF, 0xFF, 0xAA, 0xAA, 0xAA, 0xAA, 0xAA, 0xAA, 0x88, 0xB5]"

definition ethA :: ethernet_frame where
  "ethA = \<lparr>eth_destMAC = ''FF:FF:FF:FF:FF:FF'', eth_srcMAC = ''AA:AA:AA:AA:AA:AA'',
            eth_type = Num 0x88B5, eth_data = []\<rparr>"

text \<open>An IPv4 packet that carries UDP (protocol 17) and no payload.\<close>

definition udpFrame :: "8 word list" where
  "udpFrame =
     [0xFF, 0xFF, 0xFF, 0xFF, 0xFF, 0xFF, 0xAA, 0xAA, 0xAA, 0xAA, 0xAA, 0xAA, 0x08, 0x00,
      0x45, 0x00, 0x00, 0x14, 0x00, 0x01, 0x40, 0x00, 0x40, 0x11, 0x00, 0x00,
      0xC0, 0xA8, 0x00, 0x01, 0xC0, 0xA8, 0x00, 0x02]"

definition ethU :: ethernet_frame where
  "ethU = \<lparr>eth_destMAC = ''FF:FF:FF:FF:FF:FF'', eth_srcMAC = ''AA:AA:AA:AA:AA:AA'',
            eth_type = Num 0x0800, eth_data = rawBuffer (drop 14 udpFrame)\<rparr>"

definition ipU :: ipv4_packet where
  "ipU = \<lparr>ip_version = Num 4, ip_ihl = Num 5, ip_dscp = Num 0, ip_ecn = Num 0,
           ip_totalLength = Num 20, ip_identification = Num 1, ip_flags = Num 2,
           ip_fragmentOffset = Num 0, ip_ttl = Num 64, ip_protocol = Num 17,
           ip_checksum = Num 0, ip_srcIP = ''192.168.0.1'', ip_dstIP = ''192.168.0.2'',
           ip_data = []\<rparr>"

text \<open>Scenario B of the specification: 14 bytes of Ethernet, 20 of IPv4 (header length 5
  words, protocol 6) and a TCP header of 20 bytes whose sequence number is 0x80000001.\<close>

definition scenarioB :: "8 word list" where
  "scenarioB =
     [0xFF, 0xFF, 0xFF, 0xFF, 0xFF, 0xFF, 0xAA, 0xAA, 0xAA, 0xAA, 0xAA, 0xAA, 0x08, 0x00,
      0x45, 0x00, 0x00, 0x28, 0x00, 0x01, 0x40, 0x00, 0x40, 0x06, 0x00, 0x00,
      0xC0, 0xA8, 0x00, 0x01, 0xC0, 0xA8, 0x00, 0x02,
      0x00, 0x50, 0x1F, 0x90, 0x80, 0x00, 0x00, 0x01, 0x00, 0x00, 0x00, 0x00,
      0x50, 0x12, 0x20, 0x00, 0x00, 0x00, 0x00, 0x00]"

text \<open>An IPv4 header with DSCP 46, ECN 1, flags 2 and fragment offset 0x1FFF.\<close>

definition ipSample :: "8 word list" where
  "ipSample = [0x45, 0xB9, 0x00, 0x28, 0x12, 0x34, 0x5F, 0xFF, 0x40, 0x06, 0xAB, 0xCD,
               0xC0, 0xA8, 0x00, 0x01, 0xC0, 0xA8, 0x00, 0x02]"

text \<open>Twenty bytes that announce version 6 and a header of 2 words in byte 0, and a data
  offset of 3 words in byte 12.\<close>

definition oddHeader :: "8 word list" where
  "oddHeader = [0x62, 0x00, 0x00, 0x28, 0x12, 0x34, 0x5F, 0xFF, 0x40, 0x06, 0xAB, 0xCD,
                0x3F, 0xA8, 0x00, 0x01, 0xC0, 0xA8, 0x00, 0x02]"

text \<open>Twenty bytes that announce a header of 15 words in byte 0 and a data offset of 15
  words in byte 12: 60 bytes, more than the buffer holds.\<close>

definition longHeader :: "8 word list" where
  "longHeader = [0x4F, 0x00, 0x00, 0x28, 0x12, 0x34, 0x5F, 0xFF, 0x40, 0x06, 0xAB, 0xCD,
                 0xF0, 0xA8, 0x00, 0x01, 0xC0, 0xA8, 0x00, 0x02]"

text \<open>A TCP header whose sequence number is 0x80000001 and whose acknowledgment number is
  0xFFFFFFFF.\<close>

definition tcpSample :: "8 word list" where
  "tcpSample = [0x00, 0x50, 0x1F, 0x90, 0x80, 0x00, 0x00, 0x01, 0xFF, 0xFF, 0xFF, 0xFF,
                0x50, 0x12, 0x20, 0x00, 0x00, 0x00, 0x00, 0x00]"

text \<open>A hardware address, and a line of white space only: a space, a tab, a line feed.\<close>

definition macSample :: "8 word list" where
  "macSample = [0xDE, 0xAD, 0xBE, 0xEF, 0x00, 0x1A]"

definition blankLine :: string where
  "blankLine = [CHR 0x20, CHR 0x09, CHR 0x0A]"

text \<open>An array of 30 numbers that is no RawBuffer: element 12 is -1, the number that
  \<open>hexToBytes\<close> makes of the two characters \<^verbatim>\<open>-1\<close>.\<close>

definition negSegment :: "jsnum list" where
  "negSegment = map Num [0, 1, 2, 3, 4, 5, 6, 7, 8, 9, 10, 11, - 1, 13, 14, 15, 16, 17, 18, 19,
                         20, 21, 22, 23, 24, 25, 26, 27, 28, 29]"

text \<open>An input line for \<open>main\<close>: a frame of 54 bytes in which byte 12 of the TCP header is
  written \<^verbatim>\<open>-1\<close>, and whose TCP header ends with AB CD 12 34.\<close>

definition negLine :: string where
  "negLine = ''ff ff ff ff ff ff aa aa aa aa aa aa 08 00 45 00 00 28 00 01 40 00 40 06 00 00 c0 a8 00 01 c0 a8 00 02 00 50 1f 90 00 00 00 01 00 00 00 00 -1 10 20 00 ab cd 12 34''"

section \<open>Length checks of the parsers\<close>

lemma parseEthernetFrame_short:
  "length bytes < 14 \<Longrightarrow> parseEthernetFrame bytes = Inl TruncatedFrame"
  by (simp add: parseEthernetFrame_def)

lemma parseEthernetFrame_long:
  "14 \<le> length bytes \<Longrightarrow> \<exists>eth. parseEthernetFrame bytes = Inr eth"
  by (simp add: parseEthernetFrame_def)

lemma parseIPv4Packet_short:
  "length bytes < 20 \<Longrightarrow> parseIPv4Packet bytes = Inl TruncatedPacket"
  by (simp add: parseIPv4Packet_def)

lemma parseIPv4Packet_long:
  "20 \<le> length bytes \<Longrightarrow> \<exists>ip. parseIPv4Packet bytes = Inr ip"
  by (simp add: parseIPv4Packet_def Let_def)

lemma parseTCPSegment_short:
  "length bytes < 20 \<Longrightarrow> parseTCPSegment bytes = Inl TruncatedSegment"
  by (simp add: parseTCPSegment_def)

lemma parseTCPSegment_long:
  "20 \<le> length bytes \<Longrightarrow> \<exists>tcp. parseTCPSegment bytes = Inr tcp"
  by (simp add: parseTCPSegment_def Let_def)

lemma decode_short:
  "length bytes < 14 \<Longrightarrow> decode bytes = \<lparr>trace = [Print_too_short], thrown = None\<rparr>"
  by (simp add: decode_def)

text \<open>
  Claim C5. Each parser fails exactly when its buffer is shorter than its fixed header
  (14 bytes for Ethernet, 20 for IPv4, 20 for TCP), with the error of its layer
  (TruncatedFrame, TruncatedPacket, TruncatedSegment), and succeeds on every buffer that
  has the minimum length. On a buffer shorter than 14 bytes the pipeline prints that the
  frame is too short and calls no parser at all.
\<close>

theorem truncation_errors:
  "(parseEthernetFrame bytes = Inl TruncatedFrame \<longleftrightarrow> length bytes < 14) \<and>
   ((\<exists>eth. parseEthernetFrame bytes = Inr eth) \<longleftrightarrow> 14 \<le> length bytes) \<and>
   (length bytes < 14 \<longrightarrow> decode bytes = \<lparr>trace = [Print_too_short], thrown = None\<rparr>) \<and>
   (parseIPv4Packet bytes = Inl TruncatedPacket \<longleftrightarrow> length bytes < 20) \<and>
   ((\<exists>ip. parseIPv4Packet bytes = Inr ip) \<longleftrightarrow> 20 \<le> length bytes) \<and>
   (parseTCPSegment bytes = Inl TruncatedSegment \<longleftrightarrow> length bytes < 20) \<and>
   ((\<exists>tcp. parseTCPSegment bytes = Inr tcp) \<longleftrightarrow> 20 \<le> length bytes)"
proof (cases "length bytes < 14")
  case True
  then show ?thesis
    using parseEthernetFrame_short [of bytes] parseIPv4Packet_short [of bytes]
      parseTCPSegment_short [of bytes] decode_short [of bytes]
    by simp
next
  case False
  note ge14 = this
  then obtain eth where eth: "parseEthernetFrame bytes = Inr eth"
    using parseEthernetFrame_long [of bytes] by auto
  show ?thesis
  proof (cases "length bytes < 20")
    case True
    then show ?thesis
      using ge14 eth parseIPv4Packet_short [of bytes] parseTCPSegment_short [of bytes]
      by simp
  next
    case False
    then obtain ip tcp
      where "parseIPv4Packet bytes = Inr ip" "parseTCPSegment bytes = Inr tcp"
      using parseIPv4Packet_long [of bytes] parseTCPSegment_long [of bytes] by auto
    then show ?thesis
      using False eth by simp
  qed
qed

theorem truncation_errors_witness:
  "length (rawBuffer [1, 2, 3]) < 14 \<and>
   parseEthernetFrame (rawBuffer [1, 2, 3]) = Inl TruncatedFrame \<and>
   decode (rawBuffer [1, 2, 3]) = \<lparr>trace = [Print_too_short], thrown = None\<rparr> \<and>
   parseIPv4Packet (rawBuffer [1, 2, 3]) = Inl TruncatedPacket \<and>
   parseTCPSegment (rawBuffer [1, 2, 3]) = Inl TruncatedSegment \<and>
   20 \<le> length (rawBuffer scenarioB) \<and>
   (\<exists>eth. parseEthernetFrame (rawBuffer scenarioB) = Inr eth) \<and>
   (\<exists>ip. parseIPv4Packet (rawBuffer scenarioB) = Inr ip) \<and>
   (\<exists>tcp. parseTCPSegment (rawBuffer scenarioB) = Inr tcp)"
proof -
  have short: "length (rawBuffer [1, 2, 3]) < 14"
    by (simp add: rawBuffer_def)
  have long: "20 \<le> length (rawBuffer scenarioB)"
    by (simp add: rawBuffer_def scenarioB_def)
  show ?thesis
    using short long truncation_errors [of "rawBuffer [1, 2, 3]"]
      truncation_errors [of "rawBuffer scenarioB"]
    by simp
qed

section \<open>Dispatch on the tags\<close>

text \<open>
  Claim C6. The pipeline calls the IPv4 parser only when the decoded etherType is 0x0800,
  and the TCP parser only when moreover the decoded IPv4 protocol is 6. On another
  etherType it stops after printing the Ethernet frame alone; on another protocol it stops
  after printing the frame and the IPv4 packet.
\<close>

theorem pipeline_dispatch:
  "(Call IPv4 \<in> set (trace (decode bytes)) \<longrightarrow>
      (\<exists>eth. parseEthernetFrame bytes = Inr eth \<and> eth_type eth = Num 0x0800)) \<and>
   (Call TCP \<in> set (trace (decode bytes)) \<longrightarrow>
      (\<exists>eth ip. parseEthernetFrame bytes = Inr eth \<and> eth_type eth = Num 0x0800 \<and>
         parseIPv4Packet (eth_data eth) = Inr ip \<and> ip_protocol ip = Num 6)) \<and>
   (\<forall>eth. parseEthernetFrame bytes = Inr eth \<and> eth_type eth \<noteq> Num 0x0800 \<longrightarrow>
      decode bytes =
        \<lparr>trace = [Call Ethernet, Print_ethernet eth, Print_non_ipv4], thrown = None\<rparr>) \<and>
   (\<forall>eth ip. parseEthernetFrame bytes = Inr eth \<and> eth_type eth = Num 0x0800 \<and>
        parseIPv4Packet (eth_data eth) = Inr ip \<and> ip_protocol ip \<noteq> Num 6 \<longrightarrow>
      decode bytes =
        \<lparr>trace = [Call Ethernet, Print_ethernet eth, Call IPv4, Print_ipv4 ip, Print_non_tcp],
         thrown = None\<rparr>)"
proof (cases "length bytes < 14")
  case True
  then show ?thesis
    by (simp add: decode_short parseEthernetFrame_short)
next
  case False
  then show ?thesis
    by (auto simp: decode_def split: sum.splits if_splits)
qed

theorem pipeline_dispatch_witness:
  "parseEthernetFrame (rawBuffer scenarioA) = Inr ethA \<and> eth_type ethA \<noteq> Num 0x0800 \<and>
   decode (rawBuffer scenarioA) =
     \<lparr>trace = [Call Ethernet, Print_ethernet ethA, Print_non_ipv4], thrown = None\<rparr> \<and>
   parseEthernetFrame (rawBuffer udpFrame) = Inr ethU \<and> eth_type ethU = Num 0x0800 \<and>
   parseIPv4Packet (eth_data ethU) = Inr ipU \<and> ip_protocol ipU \<noteq> Num 6 \<and>
   decode (rawBuffer udpFrame) =
     \<lparr>trace = [Call Ethernet, Print_ethernet ethU, Call IPv4, Print_ipv4 ipU, Print_non_tcp],
      thrown = None\<rparr> \<and>
   Call TCP \<in> set (trace (decode (rawBuffer scenarioB))) \<and>
   (\<exists>eth ip. parseEthernetFrame (rawBuffer scenarioB) = Inr eth \<and> eth_type eth = Num 0x0800 \<and>
      parseIPv4Packet (eth_data eth) = Inr ip \<and> ip_protocol ip = Num 6)"
proof -
  have a: "parseEthernetFrame (rawBuffer scenarioA) = Inr ethA \<and> eth_type ethA \<noteq> Num 0x0800"
    by code_simp
  have u: "parseEthernetFrame (rawBuffer udpFrame) = Inr ethU \<and> eth_type ethU = Num 0x0800 \<and>
      parseIPv4Packet (eth_data ethU) = Inr ipU \<and> ip_protocol ipU \<noteq> Num 6"
    by code_simp
  have b: "Call TCP \<in> set (trace (decode (rawBuffer scenarioB)))"
    by code_simp
  show ?thesis
    using a u b pipeline_dispatch [of "rawBuffer scenarioA"]
      pipeline_dispatch [of "rawBuffer udpFrame"] pipeline_dispatch [of "rawBuffer scenarioB"]
    by blast
qed

section \<open>The bitwise operators on bytes\<close>

text \<open>On numbers between 0 and \<open>2 ^ 31\<close> the operators of JavaScript are the arithmetic
  ones: a shift to the right divides, a mask takes the remainder, and a byte shifted to the
  left by 8 and joined to another byte is the 16-bit big-endian number.\<close>

lemma sint_word_of_int_small:
  "- 2147483648 \<le> i \<Longrightarrow> i < 2147483648 \<Longrightarrow> sint (word_of_int i :: 32 word) = i"
  by (simp only: sint_sbintrunc') (simp add: signed_take_bit_int_eq_self)

lemma toInt32_small: "0 \<le> i \<Longrightarrow> i < 2147483648 \<Longrightarrow> toInt32 (Num i) = i"
  by (simp add: toInt32_def sint_word_of_int_small)

lemma js_sar_small: "0 \<le> i \<Longrightarrow> i < 2147483648 \<Longrightarrow> n < 32 \<Longrightarrow> js_sar (Num i) n = Num (i div 2 ^ n)"
  by (simp add: js_sar_def toInt32_small drop_bit_eq_div)

lemma and_low_bits: "(i::int) AND (2 ^ k - 1) = i mod 2 ^ k"
  by (simp flip: mask_eq_exp_minus_1 take_bit_eq_mask add: take_bit_eq_mod)

lemma js_band_small:
  "0 \<le> i \<Longrightarrow> i < 2147483648 \<Longrightarrow> 0 \<le> m \<Longrightarrow> m < 2147483648 \<Longrightarrow> js_band (Num i) (Num m) = Num (i AND m)"
  by (simp add: js_band_def toInt32_small)

lemma js_band_15: "0 \<le> i \<Longrightarrow> i < 2147483648 \<Longrightarrow> js_band (Num i) (Num 15) = Num (i mod 16)"
  using and_low_bits [of i 4] by (simp add: js_band_small)

lemma js_band_3: "0 \<le> i \<Longrightarrow> i < 2147483648 \<Longrightarrow> js_band (Num i) (Num 3) = Num (i mod 4)"
  using and_low_bits [of i 2] by (simp add: js_band_small)

lemma js_band_31: "0 \<le> i \<Longrightarrow> i < 2147483648 \<Longrightarrow> js_band (Num i) (Num 31) = Num (i mod 32)"
  using and_low_bits [of i 5] by (simp add: js_band_small)

lemma js_band_63: "0 \<le> i \<Longrightarrow> i < 2147483648 \<Longrightarrow> js_band (Num i) (Num 63) = Num (i mod 64)"
  using and_low_bits [of i 6] by (simp add: js_band_small)

lemma js_shl_small:
  assumes "0 \<le> a" "a * 2 ^ n < 2147483648" "n < 32"
  shows "js_shl (Num a) n = Num (a * 2 ^ n)"
proof -
  have le: "a \<le> a * 2 ^ n"
    using assms(1) by (simp add: mult_le_cancel_left1)
  then have "toInt32 (Num a) = a"
    using assms by (intro toInt32_small) auto
  moreover have "sint (word_of_int (a * 2 ^ n) :: 32 word) = a * 2 ^ n"
    using assms le by (intro sint_word_of_int_small) linarith+
  ultimately show ?thesis
    using assms(3) by (simp only: js_shl_def push_bit_eq_mult mod_less)
qed

lemma js_shl_8: "0 \<le> a \<Longrightarrow> a < 256 \<Longrightarrow> js_shl (Num a) 8 = Num (256 * a)"
  using js_shl_small [of a 8] by simp

lemma or_shifted_byte:
  assumes "0 \<le> b" "b < 256"
  shows "256 * (a::int) OR b = 256 * a + b"
proof -
  have "concat_bit 8 b a = take_bit 8 b + push_bit 8 a"
    by (rule concat_bit_eq)
  moreover have "take_bit 8 b = b"
    using assms by (simp add: take_bit_int_eq_self)
  ultimately show ?thesis
    by (simp add: concat_bit_def push_bit_eq_mult or.commute mult.commute)
qed

lemma js_be16:
  assumes "0 \<le> a" "a < 256" "0 \<le> b" "b < 256"
  shows "js_bor (js_shl (Num a) 8) (Num b) = Num (256 * a + b)"
proof -
  have "toInt32 (Num (256 * a)) = 256 * a"
    using assms by (intro toInt32_small) auto
  moreover have "toInt32 (Num b) = b"
    using assms by (intro toInt32_small) auto
  ultimately show ?thesis
    using assms by (simp add: js_shl_8 js_bor_def or_shifted_byte)
qed

section \<open>Parsing a RawBuffer\<close>

lemma length_rawBuffer [simp]: "length (rawBuffer ws) = length ws"
  by (simp add: rawBuffer_def)

lemma nth_rawBuffer: "i < length ws \<Longrightarrow> rawBuffer ws ! i = Num (uint (ws ! i))"
  by (simp add: rawBuffer_def)

lemma drop_rawBuffer: "drop k (rawBuffer ws) = rawBuffer (drop k ws)"
  by (simp add: rawBuffer_def drop_map)

lemma uint8_less: "uint (w :: 8 word) < 256"
  using uint_bounded [of w] by simp

lemma slice_start_nonneg: "0 \<le> i \<Longrightarrow> slice_start xs (Num i) = drop (nat i) xs"
  by (simp add: slice_start_def relIndex_def min_def)

lemma js_mul_Num [simp]: "js_mul (Num a) (Num b) = Num (a * b)"
  by (simp add: js_mul_def)

lemma nibble_offset: "nat (uint (w :: 8 word) mod 16 * 4) = 4 * (unat w mod 16)"
proof -
  have "uint w mod 16 * 4 = int (4 * (unat w mod 16))"
    by (simp add: zmod_int)
  then show ?thesis
    by (simp only: nat_int)
qed

lemma high_offset: "nat (uint (w :: 8 word) div 16 * 4) = 4 * (unat w div 16)"
proof -
  have "uint w div 16 * 4 = int (4 * (unat w div 16))"
    by (simp add: zdiv_int)
  then show ?thesis
    by (simp only: nat_int)
qed

lemma byte_facts:
  fixes w :: "8 word"
  shows "0 \<le> uint w" "uint w < 256" "uint w < 2147483648"
  using uint8_less [of w] by simp_all

lemma word16_split:
  fixes hi lo :: int
  assumes "0 \<le> lo" "lo < 256"
  shows "(256 * hi + lo) div 8192 = hi div 32"
    and "(256 * hi + lo) mod 8192 = 256 * (hi mod 32) + lo"
proof -
  define q r where "q = hi div 32" and "r = hi mod 32"
  have hi: "hi = 32 * q + r"
    by (simp add: q_def r_def)
  have r: "0 \<le> r" "r < 32"
    by (simp_all add: r_def)
  have eq: "256 * hi + lo = 8192 * q + (256 * r + lo)"
    by (simp add: hi)
  have bounds: "0 \<le> 256 * r + lo" "256 * r + lo < 8192"
    using assms r by linarith+
  show "(256 * hi + lo) div 8192 = hi div 32"
    using int_div_pos_eq [OF eq bounds] by (simp add: q_def)
  show "(256 * hi + lo) mod 8192 = 256 * (hi mod 32) + lo"
    using int_mod_pos_eq [OF eq bounds] by (simp add: r_def)
qed

lemma parseIPv4Packet_rawBuffer:
  fixes ws :: "8 word list"
  assumes len: "20 \<le> length ws"
  shows "parseIPv4Packet (rawBuffer ws) = Inr \<lparr>
          ip_version = Num (uint (ws ! 0) div 16),
          ip_ihl = Num (uint (ws ! 0) mod 16),
          ip_dscp = Num (uint (ws ! 1) div 4),
          ip_ecn = Num (uint (ws ! 1) mod 4),
          ip_totalLength = Num (256 * uint (ws ! 2) + uint (ws ! 3)),
          ip_identification = Num (256 * uint (ws ! 4) + uint (ws ! 5)),
          ip_flags = Num (uint (ws ! 6) div 32),
          ip_fragmentOffset = Num (256 * (uint (ws ! 6) mod 32) + uint (ws ! 7)),
          ip_ttl = Num (uint (ws ! 8)),
          ip_protocol = Num (uint (ws ! 9)),
          ip_checksum = Num (256 * uint (ws ! 10) + uint (ws ! 11)),
          ip_srcIP = bytesToIP (slice_range (rawBuffer ws) (Num 12) (Num 16)),
          ip_dstIP = bytesToIP (slice_range (rawBuffer ws) (Num 16) (Num 20)),
          ip_data = rawBuffer (drop (4 * (unat (ws ! 0) mod 16)) ws) \<rparr>"
proof -
  have idx: "\<And>i. i < 20 \<Longrightarrow> rawBuffer ws ! i = Num (uint (ws ! i))"
    using len by (simp add: nth_rawBuffer)
  have m32: "0 \<le> uint (ws ! 6) mod 32" "uint (ws ! 6) mod 32 < 256"
    by simp_all
  have "256 * (uint (ws ! 6) mod 32) < 2147483648"
    using m32 by linarith
  have data: "slice_start (rawBuffer ws) (Num (uint (ws ! 0) mod 16 * 4)) =
      rawBuffer (drop (4 * (unat (ws ! 0) mod 16)) ws)"
    by (simp add: slice_start_nonneg nibble_offset drop_rawBuffer)
  show ?thesis
    using len m32
    by (simp add: parseIPv4Packet_def Let_def idx byte_facts js_sar_small js_band_15 js_band_3
        js_band_31 js_be16 data)
qed

lemma parseTCPSegment_offset:
  fixes ws :: "8 word list"
  assumes len: "20 \<le> length ws"
  shows "\<exists>tcp. parseTCPSegment (rawBuffer ws) = Inr tcp \<and>
           tcp_dataOffset tcp = Num (uint (ws ! 12) div 16) \<and>
           tcp_data tcp = rawBuffer (drop (4 * (unat (ws ! 12) div 16)) ws)"
proof -
  have idx: "rawBuffer ws ! 12 = Num (uint (ws ! 12))"
    using len by (simp add: nth_rawBuffer)
  have off: "js_sar (Num (uint (ws ! 12))) 4 = Num (uint (ws ! 12) div 16)"
    by (simp add: js_sar_small byte_facts)
  have "0 \<le> uint (ws ! 12) div 16 * 4"
    by (simp add: pos_imp_zdiv_nonneg_iff)
  then have "slice_start (rawBuffer ws) (Num (uint (ws ! 12) div 16 * 4)) =
      rawBuffer (drop (4 * (unat (ws ! 12) div 16)) ws)"
    by (simp only: slice_start_nonneg high_offset drop_rawBuffer)
  then show ?thesis
    using len by (simp add: parseTCPSegment_def Let_def idx off)
qed

lemma parseEthernetFrame_rawBuffer:
  fixes ws :: "8 word list"
  assumes len: "14 \<le> length ws"
  shows "\<exists>eth. parseEthernetFrame (rawBuffer ws) = Inr eth \<and>
           eth_type eth = Num (256 * uint (ws ! 12) + uint (ws ! 13)) \<and>
           eth_data eth = rawBuffer (drop 14 ws)"
proof -
  have idx: "rawBuffer ws ! 12 = Num (uint (ws ! 12))" "rawBuffer ws ! 13 = Num (uint (ws ! 13))"
    using len by (simp_all add: nth_rawBuffer)
  have "slice_start (rawBuffer ws) (Num 14) = rawBuffer (drop 14 ws)"
    by (simp add: slice_start_nonneg drop_rawBuffer)
  then show ?thesis
    using len by (simp add: parseEthernetFrame_def idx js_be16 byte_facts)
qed

text \<open>
  Claim C4. For every buffer of at least 20 bytes the IPv4 parser succeeds and returns:
  version, the high nibble of byte 0; the header length in words, its low nibble; DSCP,
  the high 6 bits of byte 1; ECN, its low 2 bits; flags, the top 3 bits of the 16-bit
  big-endian value of bytes 6 and 7; fragmentOffset, the other 13 bits; TTL, byte 8;
  protocol, byte 9; the checksum, bytes 10 and 11 as a 16-bit big-endian number; and as
  payload the buffer from offset 4 times the header length on.
\<close>

theorem parseIPv4Packet_fields:
  fixes ws :: "8 word list"
  assumes "20 \<le> length ws"
  shows "\<exists>ip. parseIPv4Packet (rawBuffer ws) = Inr ip \<and>
     ip_version ip = Num (uint (ws ! 0) div 16) \<and>
     ip_ihl ip = Num (uint (ws ! 0) mod 16) \<and>
     ip_dscp ip = Num (uint (ws ! 1) div 4) \<and>
     ip_ecn ip = Num (uint (ws ! 1) mod 4) \<and>
     ip_totalLength ip = Num (256 * uint (ws ! 2) + uint (ws ! 3)) \<and>
     ip_identification ip = Num (256 * uint (ws ! 4) + uint (ws ! 5)) \<and>
     ip_flags ip = Num ((256 * uint (ws ! 6) + uint (ws ! 7)) div 8192) \<and>
     ip_fragmentOffset ip = Num ((256 * uint (ws ! 6) + uint (ws ! 7)) mod 8192) \<and>
     ip_ttl ip = Num (uint (ws ! 8)) \<and>
     ip_protocol ip = Num (uint (ws ! 9)) \<and>
     ip_checksum ip = Num (256 * uint (ws ! 10) + uint (ws ! 11)) \<and>
     ip_data ip = rawBuffer (drop (4 * (unat (ws ! 0) mod 16)) ws)"
  using parseIPv4Packet_rawBuffer [OF assms]
  by (simp add: word16_split byte_facts)

theorem parseIPv4Packet_fields_witness:
  "20 \<le> length ipSample \<and>
   (\<exists>ip. parseIPv4Packet (rawBuffer ipSample) = Inr ip \<and>
     ip_version ip = Num 4 \<and> ip_ihl ip = Num 5 \<and> ip_dscp ip = Num 46 \<and> ip_ecn ip = Num 1 \<and>
     ip_totalLength ip = Num 40 \<and> ip_identification ip = Num 0x1234 \<and>
     ip_flags ip = Num 2 \<and> ip_fragmentOffset ip = Num 8191 \<and> ip_ttl ip = Num 64 \<and>
     ip_protocol ip = Num 6 \<and> ip_checksum ip = Num 0xABCD \<and> ip_data ip = [])"
proof -
  have len: "20 \<le> length ipSample"
    by (simp add: ipSample_def)
  show ?thesis
    using len parseIPv4Packet_fields [OF len]
    by (simp add: ipSample_def rawBuffer_def)
qed

section \<open>Payload offsets\<close>

text \<open>What the two parsers return as payload on every array of at least 20 numbers, whatever
  the numbers are: the header length is the 32-bit integer of element 0 modulo 16, the
  data offset is the 32-bit integer of element 12 divided by 16, rounded down, and
  \<^verbatim>\<open>slice\<close> counts a negative start from the end of the array.\<close>

lemma js_band_15_any: "js_band x (Num 15) = Num (toInt32 x mod 16)"
  using and_low_bits [of "toInt32 x" 4] by (simp add: js_band_def toInt32_small)

lemma js_sar_4_any: "js_sar x 4 = Num (toInt32 x div 16)"
  by (simp add: js_sar_def drop_bit_eq_div)

lemma slice_start_negative:
  "i < 0 \<Longrightarrow> slice_start xs (Num i) = drop (length xs - nat (- i)) xs"
proof -
  assume "i < 0"
  then have "nat (max (int (length xs) + i) 0) = length xs - nat (- i)"
    by linarith
  with \<open>i < 0\<close> show ?thesis
    by (simp add: slice_start_def relIndex_def)
qed

lemma toInt32_byte: "toInt32 (Num (uint (w :: 8 word))) = uint w"
  by (simp add: toInt32_small byte_facts)

lemma parseIPv4Packet_payload:
  assumes len: "20 \<le> length bytes"
  shows "\<exists>ip. parseIPv4Packet bytes = Inr ip \<and>
     ip_version ip = js_sar (bytes ! 0) 4 \<and>
     ip_ihl ip = Num (toInt32 (bytes ! 0) mod 16) \<and>
     ip_data ip = drop (4 * nat (toInt32 (bytes ! 0) mod 16)) bytes"
proof -
  have "nat (toInt32 (bytes ! 0) mod 16 * 4) = 4 * nat (toInt32 (bytes ! 0) mod 16)"
    by (simp add: nat_mult_distrib)
  then have "slice_start bytes (Num (toInt32 (bytes ! 0) mod 16 * 4)) =
      drop (4 * nat (toInt32 (bytes ! 0) mod 16)) bytes"
    by (simp add: slice_start_nonneg)
  then show ?thesis
    using len by (simp add: parseIPv4Packet_def Let_def js_band_15_any)
qed

lemma parseTCPSegment_payload:
  assumes len: "20 \<le> length bytes"
  shows "\<exists>tcp. parseTCPSegment bytes = Inr tcp \<and>
     tcp_dataOffset tcp = Num (toInt32 (bytes ! 12) div 16) \<and>
     tcp_data tcp =
       (if 0 \<le> toInt32 (bytes ! 12)
        then drop (4 * nat (toInt32 (bytes ! 12) div 16)) bytes
        else drop (length bytes - 4 * nat (- (toInt32 (bytes ! 12) div 16))) bytes)"
proof -
  let ?d = "toInt32 (bytes ! 12) div 16"
  have data: "slice_start bytes (Num (?d * 4)) =
       (if 0 \<le> toInt32 (bytes ! 12)
        then drop (4 * nat ?d) bytes
        else drop (length bytes - 4 * nat (- ?d)) bytes)"
  proof (cases "0 \<le> toInt32 (bytes ! 12)")
    case True
    then have d: "0 \<le> ?d"
      by (simp add: pos_imp_zdiv_nonneg_iff)
    then have "0 \<le> ?d * 4"
      by simp
    moreover have "nat (?d * 4) = 4 * nat ?d"
      using d by (simp add: nat_mult_distrib)
    ultimately show ?thesis
      using True by (simp only: slice_start_nonneg if_True)
  next
    case False
    then have d: "?d < 0"
      by (simp add: div_neg_pos_less0)
    then have "?d * 4 < 0"
      by simp
    moreover have "nat (- (?d * 4)) = 4 * nat (- ?d)"
      using d by (simp add: nat_mult_distrib)
    ultimately show ?thesis
      using False by (simp only: slice_start_negative if_False)
  qed
  show ?thesis
    using len by (simp add: parseTCPSegment_def Let_def js_sar_4_any data)
qed

text \<open>
  Claim C7, as the code has it. For every array that the IPv4 parser accepts, whatever
  its elements, the payload offset, 4 times the header length, is a natural number of at
  most 60, the payload is the array from that offset on, and it is empty when the offset
  is at or beyond the end of the array. For every array that the TCP parser accepts and
  whose element 12 is not negative as a 32-bit integer, as \<^verbatim>\<open>NaN\<close> and every 8-bit value
  are, the payload offset, 4 times the data offset, is a natural number, the payload is
  the array from that offset on, and it is empty when the offset is at or beyond the end.
  When element 12 is negative, the payload offset is a negative number \<open>- k\<close> and the
  payload is the array from index \<open>length bytes - k\<close> on, from 0 when the array has fewer
  than \<open>k\<close> elements.
\<close>

theorem payload_offset_by_sign:
  "(\<forall>ip. parseIPv4Packet bytes = Inr ip \<longrightarrow>
      (\<exists>off. off \<le> 60 \<and> js_mul (ip_ihl ip) (Num 4) = Num (int off) \<and>
         ip_data ip = drop off bytes \<and> (length bytes \<le> off \<longrightarrow> ip_data ip = []))) \<and>
   (\<forall>tcp. parseTCPSegment bytes = Inr tcp \<and> 0 \<le> toInt32 (bytes ! 12) \<longrightarrow>
      (\<exists>off. js_mul (tcp_dataOffset tcp) (Num 4) = Num (int off) \<and>
         tcp_data tcp = drop off bytes \<and> (length bytes \<le> off \<longrightarrow> tcp_data tcp = []))) \<and>
   (\<forall>tcp. parseTCPSegment bytes = Inr tcp \<and> toInt32 (bytes ! 12) < 0 \<longrightarrow>
      (\<exists>k. 0 < k \<and> js_mul (tcp_dataOffset tcp) (Num 4) = Num (- int k) \<and>
         tcp_data tcp = drop (length bytes - k) bytes)) \<and>
   (bytes ! 12 = NaN \<or> (\<exists>w :: 8 word. bytes ! 12 = Num (uint w)) \<longrightarrow>
      0 \<le> toInt32 (bytes ! 12))"
proof -
  have byte: "bytes ! 12 = NaN \<or> (\<exists>w :: 8 word. bytes ! 12 = Num (uint w)) \<longrightarrow>
      0 \<le> toInt32 (bytes ! 12)"
    by (auto simp: toInt32_byte) (simp add: toInt32_def)
  show ?thesis
  proof (cases "20 \<le> length bytes")
    case False
    then show ?thesis
      using byte by (simp add: parseIPv4Packet_short parseTCPSegment_short)
  next
    case True
    let ?k = "nat (toInt32 (bytes ! 0) mod 16)"
    let ?d = "toInt32 (bytes ! 12) div 16"
    have ip: "\<exists>off. off \<le> 60 \<and> js_mul (ip_ihl ip) (Num 4) = Num (int off) \<and>
         ip_data ip = drop off bytes \<and> (length bytes \<le> off \<longrightarrow> ip_data ip = [])"
      if "parseIPv4Packet bytes = Inr ip" for ip
    proof -
      have ihl: "ip_ihl ip = Num (toInt32 (bytes ! 0) mod 16)"
        and data: "ip_data ip = drop (4 * ?k) bytes"
        using that parseIPv4Packet_payload [OF True] by auto
      have "int ?k = toInt32 (bytes ! 0) mod 16" "?k < 16"
        by simp_all
      then have eq: "toInt32 (bytes ! 0) mod 16 * 4 = int (4 * ?k)" and le: "4 * ?k \<le> 60"
        by linarith+
      have "js_mul (ip_ihl ip) (Num 4) = Num (int (4 * ?k))"
        by (simp only: ihl js_mul_Num eq)
      moreover have "length bytes \<le> 4 * ?k \<longrightarrow> ip_data ip = []"
        by (simp add: data)
      ultimately show ?thesis
        using le data by blast
    qed
    have pos: "\<exists>off. js_mul (tcp_dataOffset tcp) (Num 4) = Num (int off) \<and>
         tcp_data tcp = drop off bytes \<and> (length bytes \<le> off \<longrightarrow> tcp_data tcp = [])"
      if "parseTCPSegment bytes = Inr tcp" "0 \<le> toInt32 (bytes ! 12)" for tcp
    proof -
      have doff: "tcp_dataOffset tcp = Num ?d"
        and data: "tcp_data tcp = drop (4 * nat ?d) bytes"
        using that parseTCPSegment_payload [OF True] by auto
      have "0 \<le> ?d"
        using that(2) by (simp add: pos_imp_zdiv_nonneg_iff)
      then have "int (nat ?d) = ?d"
        by (simp only: nat_0_le)
      then have eq: "?d * 4 = int (4 * nat ?d)"
        by linarith
      have "js_mul (tcp_dataOffset tcp) (Num 4) = Num (int (4 * nat ?d))"
        by (simp only: doff js_mul_Num eq)
      moreover have "length bytes \<le> 4 * nat ?d \<longrightarrow> tcp_data tcp = []"
        by (simp add: data)
      ultimately show ?thesis
        using data by blast
    qed
    have neg: "\<exists>k. 0 < k \<and> js_mul (tcp_dataOffset tcp) (Num 4) = Num (- int k) \<and>
         tcp_data tcp = drop (length bytes - k) bytes"
      if "parseTCPSegment bytes = Inr tcp" "toInt32 (bytes ! 12) < 0" for tcp
    proof -
      have doff: "tcp_dataOffset tcp = Num ?d"
        and data: "tcp_data tcp = drop (length bytes - 4 * nat (- ?d)) bytes"
        using that parseTCPSegment_payload [OF True] by auto
      have d: "?d < 0"
        using that(2) by (simp add: div_neg_pos_less0)
      then have "int (nat (- ?d)) = - ?d"
        by (simp only: nat_0_le neg_0_le_iff_le less_imp_le)
      then have eq: "?d * 4 = - int (4 * nat (- ?d))" and k: "0 < 4 * nat (- ?d)"
        using d by linarith+
      have "js_mul (tcp_dataOffset tcp) (Num 4) = Num (- int (4 * nat (- ?d)))"
        by (simp only: doff js_mul_Num eq)
      then show ?thesis
        using k data by blast
    qed
    from ip pos neg byte show ?thesis by blast
  qed
qed

theorem payload_offset_by_sign_witness:
  "(\<exists>ip. parseIPv4Packet (rawBuffer longHeader) = Inr ip \<and>
      js_mul (ip_ihl ip) (Num 4) = Num 60 \<and> length (rawBuffer longHeader) \<le> 60 \<and>
      ip_data ip = []) \<and>
   (\<exists>w :: 8 word. rawBuffer longHeader ! 12 = Num (uint w)) \<and>
   0 \<le> toInt32 (rawBuffer longHeader ! 12) \<and>
   (\<exists>tcp. parseTCPSegment (rawBuffer longHeader) = Inr tcp \<and>
      js_mul (tcp_dataOffset tcp) (Num 4) = Num 60 \<and> tcp_data tcp = []) \<and>
   toInt32 (negSegment ! 12) < 0 \<and>
   (\<exists>tcp. parseTCPSegment negSegment = Inr tcp \<and>
      js_mul (tcp_dataOffset tcp) (Num 4) = Num (- 4) \<and> tcp_data tcp = drop 26 negSegment)"
proof -
  have len: "20 \<le> length (rawBuffer longHeader)" "length (rawBuffer longHeader) \<le> 60"
    by (simp_all add: longHeader_def)
  have elem: "rawBuffer longHeader ! 0 = Num 79" "rawBuffer longHeader ! 12 = Num (uint (240 :: 8 word))"
    by (simp_all add: longHeader_def rawBuffer_def)
  have byte: "\<exists>w :: 8 word. rawBuffer longHeader ! 12 = Num (uint w)"
    using elem(2) by blast
  then have sign: "0 \<le> toInt32 (rawBuffer longHeader ! 12)"
    using payload_offset_by_sign [of "rawBuffer longHeader"] by blast
  obtain ip where ip: "parseIPv4Packet (rawBuffer longHeader) = Inr ip" "ip_ihl ip = Num 15"
    using parseIPv4Packet_payload [OF len(1)] by (auto simp: elem toInt32_def)
  obtain tcp where tcp: "parseTCPSegment (rawBuffer longHeader) = Inr tcp"
    "tcp_dataOffset tcp = Num 15"
    using parseTCPSegment_payload [OF len(1)] by (auto simp: elem toInt32_def)
  obtain off where off: "js_mul (ip_ihl ip) (Num 4) = Num (int off)"
    "length (rawBuffer longHeader) \<le> off \<longrightarrow> ip_data ip = []"
    using payload_offset_by_sign [of "rawBuffer longHeader"] ip(1) by blast
  obtain off' where off': "js_mul (tcp_dataOffset tcp) (Num 4) = Num (int off')"
    "length (rawBuffer longHeader) \<le> off' \<longrightarrow> tcp_data tcp = []"
    using payload_offset_by_sign [of "rawBuffer longHeader"] tcp(1) sign by blast
  have "off = 60" "off' = 60"
    using off(1) off'(1) by (simp_all add: ip(2) tcp(2))
  then have long: "js_mul (ip_ihl ip) (Num 4) = Num 60" "ip_data ip = []"
    "js_mul (tcp_dataOffset tcp) (Num 4) = Num 60" "tcp_data tcp = []"
    using off off' len(2) by simp_all
  have nlen: "20 \<le> length negSegment" "length negSegment = 30"
    by (simp_all add: negSegment_def)
  have nsign: "toInt32 (negSegment ! 12) < 0"
    by (simp add: negSegment_def toInt32_def)
  obtain ntcp where ntcp: "parseTCPSegment negSegment = Inr ntcp"
    "tcp_dataOffset ntcp = Num (- 1)"
    using parseTCPSegment_payload [OF nlen(1)] by (auto simp: negSegment_def toInt32_def)
  obtain k where k: "js_mul (tcp_dataOffset ntcp) (Num 4) = Num (- int k)"
    "tcp_data ntcp = drop (length negSegment - k) negSegment"
    using payload_offset_by_sign [of negSegment] ntcp(1) nsign by blast
  have "k = 4"
    using k(1) by (simp add: ntcp(2))
  then have short: "js_mul (tcp_dataOffset ntcp) (Num 4) = Num (- 4)"
    "tcp_data ntcp = drop 26 negSegment"
    using k by (simp_all add: nlen(2))
  show ?thesis
    using ip(1) tcp(1) ntcp(1) long short byte sign nsign len(2) by blast
qed

text \<open>
  Claim C7, as the specification states it, fails. The line \<open>negLine\<close> is a frame of 54
  bytes in which byte 12 of the TCP header is written \<^verbatim>\<open>-1\<close>. \<open>main\<close> decodes its three
  layers and throws nothing; the data offset is -1, the payload offset is -4, and the
  payload is not empty: it is the last four elements of the TCP header.
\<close>

theorem negative_payload_offset:
  "thrown (main negLine) = None \<and>
   (case last (trace (main negLine)) of
      Print_tcp tcp \<Rightarrow>
        tcp_dataOffset tcp = Num (- 1) \<and> js_mul (tcp_dataOffset tcp) (Num 4) = Num (- 4) \<and>
        tcp_data tcp = map Num [171, 205, 18, 52]
    | _ \<Rightarrow> False)"
  by code_simp

text \<open>
  Claim C9, as the code has it. On every array of at least 20 numbers, whatever they are,
  both parsers succeed: the version is returned as read, the 32-bit integer of element 0
  divided by 16 and not compared with 4, and every header length and data offset is
  accepted. The header length is between 0 and 15; when it is below 5 the payload is not
  empty and begins inside the first 20 elements, with those from 4 times the header
  length to index 19. When the data offset is between 0 and 4 the same holds of the TCP
  payload. When the data offset \<open>d\<close> is negative, the payload is the array from index
  \<open>length bytes - 4 * |d|\<close> on (from 0 when that is negative), wherever that index lies.
  The 32-bit integer of \<^verbatim>\<open>NaN\<close> is 0 and that of an 8-bit value is the value.
\<close>

theorem parsers_accept_any_fields:
  assumes len: "20 \<le> length bytes"
  shows "\<exists>ip tcp.
     parseIPv4Packet bytes = Inr ip \<and>
     ip_version ip = Num (toInt32 (bytes ! 0) div 16) \<and>
     ip_ihl ip = Num (toInt32 (bytes ! 0) mod 16) \<and>
     0 \<le> toInt32 (bytes ! 0) mod 16 \<and> toInt32 (bytes ! 0) mod 16 \<le> 15 \<and>
     (toInt32 (bytes ! 0) mod 16 < 5 \<longrightarrow>
        ip_data ip \<noteq> [] \<and>
        take (20 - 4 * nat (toInt32 (bytes ! 0) mod 16)) (ip_data ip) =
          drop (4 * nat (toInt32 (bytes ! 0) mod 16)) (take 20 bytes)) \<and>
     parseTCPSegment bytes = Inr tcp \<and>
     tcp_dataOffset tcp = Num (toInt32 (bytes ! 12) div 16) \<and>
     (0 \<le> toInt32 (bytes ! 12) div 16 \<and> toInt32 (bytes ! 12) div 16 < 5 \<longrightarrow>
        tcp_data tcp \<noteq> [] \<and>
        take (20 - 4 * nat (toInt32 (bytes ! 12) div 16)) (tcp_data tcp) =
          drop (4 * nat (toInt32 (bytes ! 12) div 16)) (take 20 bytes)) \<and>
     (toInt32 (bytes ! 12) div 16 < 0 \<longrightarrow>
        tcp_data tcp = drop (length bytes - 4 * nat (- (toInt32 (bytes ! 12) div 16))) bytes) \<and>
     toInt32 NaN = 0 \<and> (\<forall>w :: 8 word. toInt32 (Num (uint w)) = uint w)"
proof -
  let ?k = "toInt32 (bytes ! 0) mod 16"
  let ?d = "toInt32 (bytes ! 12) div 16"
  have overlap: "drop j bytes \<noteq> [] \<and> take (20 - j) (drop j bytes) = drop j (take 20 bytes)"
    if "j < 20" for j
    using that len by (simp add: take_drop)
  obtain ip where ip: "parseIPv4Packet bytes = Inr ip"
    "ip_version ip = Num (toInt32 (bytes ! 0) div 16)" "ip_ihl ip = Num ?k"
    "ip_data ip = drop (4 * nat ?k) bytes"
    using parseIPv4Packet_payload [OF len] by (auto simp: js_sar_4_any)
  obtain tcp where tcp: "parseTCPSegment bytes = Inr tcp" "tcp_dataOffset tcp = Num ?d"
    "tcp_data tcp =
       (if 0 \<le> toInt32 (bytes ! 12) then drop (4 * nat ?d) bytes
        else drop (length bytes - 4 * nat (- ?d)) bytes)"
    using parseTCPSegment_payload [OF len] by blast
  have range: "0 \<le> ?k" "?k \<le> 15"
    by simp_all
  have ihl: "?k < 5 \<longrightarrow>
        ip_data ip \<noteq> [] \<and>
        take (20 - 4 * nat ?k) (ip_data ip) = drop (4 * nat ?k) (take 20 bytes)"
  proof
    assume "?k < 5"
    then have "4 * nat ?k < 20"
      by linarith
    then show "ip_data ip \<noteq> [] \<and>
        take (20 - 4 * nat ?k) (ip_data ip) = drop (4 * nat ?k) (take 20 bytes)"
      using overlap [of "4 * nat ?k"] by (simp add: ip(4))
  qed
  have sign: "0 \<le> toInt32 (bytes ! 12) \<longleftrightarrow> 0 \<le> ?d"
    by (simp add: pos_imp_zdiv_nonneg_iff)
  have small: "0 \<le> ?d \<and> ?d < 5 \<longrightarrow>
        tcp_data tcp \<noteq> [] \<and>
        take (20 - 4 * nat ?d) (tcp_data tcp) = drop (4 * nat ?d) (take 20 bytes)"
  proof
    assume d: "0 \<le> ?d \<and> ?d < 5"
    then have "4 * nat ?d < 20"
      by linarith
    moreover have "tcp_data tcp = drop (4 * nat ?d) bytes"
      using d sign by (simp only: tcp(3) if_True)
    ultimately show "tcp_data tcp \<noteq> [] \<and>
        take (20 - 4 * nat ?d) (tcp_data tcp) = drop (4 * nat ?d) (take 20 bytes)"
      using overlap [of "4 * nat ?d"] by simp
  qed
  have neg: "?d < 0 \<longrightarrow> tcp_data tcp = drop (length bytes - 4 * nat (- ?d)) bytes"
  proof
    assume "?d < 0"
    then have "\<not> 0 \<le> toInt32 (bytes ! 12)"
      using sign by linarith
    then show "tcp_data tcp = drop (length bytes - 4 * nat (- ?d)) bytes"
      by (simp only: tcp(3) if_False)
  qed
  have "toInt32 NaN = 0"
    by (simp add: toInt32_def)
  then show ?thesis
    using ip(1,2,3) tcp(1,2) range ihl small neg toInt32_byte
    by (intro exI [of _ ip] exI [of _ tcp]) (simp only: simp_thms)
qed

theorem parsers_accept_any_fields_witness:
  "20 \<le> length (rawBuffer oddHeader) \<and>
   toInt32 (rawBuffer oddHeader ! 0) mod 16 < 5 \<and>
   0 \<le> toInt32 (rawBuffer oddHeader ! 12) div 16 \<and>
   toInt32 (rawBuffer oddHeader ! 12) div 16 < 5 \<and>
   (\<exists>ip tcp.
     parseIPv4Packet (rawBuffer oddHeader) = Inr ip \<and>
     ip_version ip = Num 6 \<and> ip_ihl ip = Num 2 \<and> ip_data ip \<noteq> [] \<and>
     take 12 (ip_data ip) = rawBuffer (drop 8 oddHeader) \<and>
     parseTCPSegment (rawBuffer oddHeader) = Inr tcp \<and>
     tcp_dataOffset tcp = Num 3 \<and> tcp_data tcp \<noteq> [] \<and>
     take 8 (tcp_data tcp) = rawBuffer (drop 12 oddHeader)) \<and>
   20 \<le> length negSegment \<and> toInt32 (negSegment ! 12) div 16 < 0 \<and>
   (\<exists>tcp. parseTCPSegment negSegment = Inr tcp \<and>
      tcp_dataOffset tcp = Num (- 1) \<and> tcp_data tcp = drop 26 negSegment)"
proof -
  have len: "20 \<le> length (rawBuffer oddHeader)"
    by (simp add: oddHeader_def)
  have elems: "toInt32 (rawBuffer oddHeader ! 0) = 98" "toInt32 (rawBuffer oddHeader ! 12) = 63"
    by (simp_all add: oddHeader_def rawBuffer_def toInt32_def)
  have odd: "\<exists>ip tcp.
     parseIPv4Packet (rawBuffer oddHeader) = Inr ip \<and>
     ip_version ip = Num 6 \<and> ip_ihl ip = Num 2 \<and> ip_data ip \<noteq> [] \<and>
     take 12 (ip_data ip) = rawBuffer (drop 8 oddHeader) \<and>
     parseTCPSegment (rawBuffer oddHeader) = Inr tcp \<and>
     tcp_dataOffset tcp = Num 3 \<and> tcp_data tcp \<noteq> [] \<and>
     take 8 (tcp_data tcp) = rawBuffer (drop 12 oddHeader)"
    using parsers_accept_any_fields [OF len] unfolding elems
    by (simp add: oddHeader_def rawBuffer_def) blast
  have nlen: "20 \<le> length negSegment"
    by (simp add: negSegment_def)
  have nelem: "toInt32 (negSegment ! 12) = - 1"
    by (simp add: negSegment_def toInt32_def)
  have neg: "\<exists>tcp. parseTCPSegment negSegment = Inr tcp \<and>
      tcp_dataOffset tcp = Num (- 1) \<and> tcp_data tcp = drop 26 negSegment"
    using parsers_accept_any_fields [OF nlen] unfolding nelem
    by (auto simp: negSegment_def)
  show ?thesis
    using len nlen odd neg by (simp add: elems nelem)
qed

text \<open>
  Claim C9, as the specification states it, fails. In \<open>negSegment\<close>, an array of 30 numbers
  with -1 at index 12, the data offset is -1, which is below 5, and the payload is the
  elements 26 to 29: it begins behind the first 20 elements, not inside them.
\<close>

theorem payload_outside_header:
  "20 \<le> length negSegment \<and>
   (case parseTCPSegment negSegment of
      Inl e \<Rightarrow> False
    | Inr tcp \<Rightarrow>
        tcp_dataOffset tcp = Num (- 1) \<and> (- 1 :: int) < 5 \<and>
        tcp_data tcp = drop 26 negSegment \<and> tcp_data tcp = map Num [26, 27, 28, 29])"
  by code_simp

section \<open>The full stack\<close>

text \<open>
  Claim C1. For every buffer of at least 54 bytes whose etherType is 0x0800, whose IPv4
  protocol is 6, and whose header length \<open>ihl\<close> and data offset \<open>doff\<close> are between 5 and
  15 words with \<open>14 + 4 * ihl + 4 * doff\<close> at most the length of the buffer, the three
  parsers succeed one after the other, the pipeline prints all three layers, and the TCP
  payload has \<open>length ws - (14 + 4 * ihl + 4 * doff)\<close> bytes.
\<close>

theorem full_stack_decodes:
  fixes ws :: "8 word list" and ihl doff :: nat
  assumes len: "54 \<le> length ws"
    and etherType: "256 * uint (ws ! 12) + uint (ws ! 13) = 0x0800"
    and protocol: "uint (ws ! 23) = 6"
    and ihl: "ihl = unat (ws ! 14) mod 16"
    and doff: "doff = unat (ws ! (26 + 4 * ihl)) div 16"
    and ihl_range: "5 \<le> ihl" "ihl \<le> 15"
    and doff_range: "5 \<le> doff" "doff \<le> 15"
    and fits: "14 + 4 * ihl + 4 * doff \<le> length ws"
  shows "\<exists>eth ip tcp.
     parseEthernetFrame (rawBuffer ws) = Inr eth \<and> eth_type eth = Num 0x0800 \<and>
     parseIPv4Packet (eth_data eth) = Inr ip \<and> ip_protocol ip = Num 6 \<and>
     ip_ihl ip = Num (int ihl) \<and>
     parseTCPSegment (ip_data ip) = Inr tcp \<and> tcp_dataOffset tcp = Num (int doff) \<and>
     length (tcp_data tcp) = length ws - (14 + 4 * ihl + 4 * doff) \<and>
     decode (rawBuffer ws) =
       \<lparr>trace = [Call Ethernet, Print_ethernet eth, Call IPv4, Print_ipv4 ip, Call TCP,
                 Print_tcp tcp], thrown = None\<rparr>"
proof -
  let ?ws1 = "drop 14 ws"
  let ?ws2 = "drop (4 * ihl) ?ws1"
  have len14: "14 \<le> length ws"
    using len by simp
  obtain eth where eth: "parseEthernetFrame (rawBuffer ws) = Inr eth"
    "eth_type eth = Num 0x0800" "eth_data eth = rawBuffer ?ws1"
    using parseEthernetFrame_rawBuffer [OF len14] etherType by auto
  have len1: "20 \<le> length ?ws1"
    using len by simp
  have nth1: "?ws1 ! 0 = ws ! 14" "?ws1 ! 9 = ws ! 23"
    using len by simp_all
  have ip_rec: "\<exists>ip. parseIPv4Packet (rawBuffer ?ws1) = Inr ip \<and>
      ip_ihl ip = Num (uint (?ws1 ! 0) mod 16) \<and> ip_protocol ip = Num (uint (?ws1 ! 9)) \<and>
      ip_data ip = rawBuffer (drop (4 * (unat (?ws1 ! 0) mod 16)) ?ws1)"
    using parseIPv4Packet_rawBuffer [OF len1] by simp
  have "uint (ws ! 14) mod 16 = int ihl"
    by (simp add: ihl zmod_int)
  then obtain ip where ip: "parseIPv4Packet (rawBuffer ?ws1) = Inr ip"
    "ip_ihl ip = Num (int ihl)" "ip_protocol ip = Num 6" "ip_data ip = rawBuffer ?ws2"
    using ip_rec protocol unfolding nth1 ihl by auto
  have len2: "20 \<le> length ?ws2"
    using fits doff_range by simp
  have nth2: "?ws2 ! 12 = ws ! (26 + 4 * ihl)"
    using fits doff_range by (simp add: add.commute add.left_commute)
  have "uint (ws ! (26 + 4 * ihl)) div 16 = int doff"
    by (simp add: doff zdiv_int)
  then obtain tcp where tcp: "parseTCPSegment (rawBuffer ?ws2) = Inr tcp"
    "tcp_dataOffset tcp = Num (int doff)" "tcp_data tcp = rawBuffer (drop (4 * doff) ?ws2)"
    using parseTCPSegment_offset [OF len2] unfolding nth2 doff by auto
  have size: "length (tcp_data tcp) = length ws - (14 + 4 * ihl + 4 * doff)"
    by (simp add: tcp(3))
  have "decode (rawBuffer ws) =
       \<lparr>trace = [Call Ethernet, Print_ethernet eth, Call IPv4, Print_ipv4 ip, Call TCP,
                 Print_tcp tcp], thrown = None\<rparr>"
    using len14 by (simp add: decode_def eth ip tcp del: drop_drop)
  with eth ip tcp size show ?thesis
    by (intro exI [of _ eth] exI [of _ ip] exI [of _ tcp]) simp
qed

theorem full_stack_decodes_witness:
  "54 \<le> length scenarioB \<and>
   256 * uint (scenarioB ! 12) + uint (scenarioB ! 13) = 0x0800 \<and>
   uint (scenarioB ! 23) = 6 \<and>
   (5::nat) = unat (scenarioB ! 14) mod 16 \<and>
   (5::nat) = unat (scenarioB ! (26 + 4 * 5)) div 16 \<and>
   14 + 4 * 5 + 4 * 5 \<le> length scenarioB \<and>
   (\<exists>eth ip tcp.
     parseEthernetFrame (rawBuffer scenarioB) = Inr eth \<and> eth_type eth = Num 0x0800 \<and>
     parseIPv4Packet (eth_data eth) = Inr ip \<and> ip_protocol ip = Num 6 \<and>
     ip_ihl ip = Num 5 \<and>
     parseTCPSegment (ip_data ip) = Inr tcp \<and> tcp_dataOffset tcp = Num 5 \<and>
     length (tcp_data tcp) = 0 \<and>
     decode (rawBuffer scenarioB) =
       \<lparr>trace = [Call Ethernet, Print_ethernet eth, Call IPv4, Print_ipv4 ip, Call TCP,
                 Print_tcp tcp], thrown = None\<rparr>)"
proof -
  have h: "54 \<le> length scenarioB"
    "256 * uint (scenarioB ! 12) + uint (scenarioB ! 13) = 0x0800"
    "uint (scenarioB ! 23) = 6"
    "(5::nat) = unat (scenarioB ! 14) mod 16"
    "(5::nat) = unat (scenarioB ! (26 + 4 * 5)) div 16"
    "14 + 4 * 5 + 4 * 5 \<le> length scenarioB"
    by (simp_all add: scenarioB_def)
  have "\<exists>eth ip tcp.
     parseEthernetFrame (rawBuffer scenarioB) = Inr eth \<and> eth_type eth = Num 0x0800 \<and>
     parseIPv4Packet (eth_data eth) = Inr ip \<and> ip_protocol ip = Num 6 \<and>
     ip_ihl ip = Num (int 5) \<and>
     parseTCPSegment (ip_data ip) = Inr tcp \<and> tcp_dataOffset tcp = Num (int 5) \<and>
     length (tcp_data tcp) = length scenarioB - (14 + 4 * 5 + 4 * 5) \<and>
     decode (rawBuffer scenarioB) =
       \<lparr>trace = [Call Ethernet, Print_ethernet eth, Call IPv4, Print_ipv4 ip, Call TCP,
                 Print_tcp tcp], thrown = None\<rparr>"
    by (rule full_stack_decodes [OF h(1) h(2) h(3) h(4) h(5) _ _ _ _ h(6)]) simp_all
  moreover have "length scenarioB - (14 + 4 * 5 + 4 * 5) = 0"
    by (simp add: scenarioB_def)
  ultimately show ?thesis
    using h by simp
qed

section \<open>The hex decoder\<close>

lemma code_char_of: "code (char_of n) = n mod 256"
  by (simp add: code_def)

lemma char_eq_code: "(c = c') = (code c = code c')"
  by (simp add: code_def)

lemma clean_blank: "\<forall>c\<in>set line. isWhiteSpace c \<Longrightarrow> clean line = []"
  by (simp add: clean_def toLowerCase_def)

lemma lineTerminator_is_whiteSpace: "isLineTerminator c \<Longrightarrow> isWhiteSpace c"
  by (auto simp: isLineTerminator_def isWhiteSpace_def)

lemma toLowerCase_char_not_lineTerminator:
  assumes "\<not> isWhiteSpace c"
  shows "\<not> isLineTerminator (toLowerCase_char c)"
proof (cases "toLowerCase_char c = c")
  case True
  then show ?thesis
    using assms lineTerminator_is_whiteSpace by auto
next
  case False
  then have range: "(65 \<le> code c \<and> code c \<le> 90) \<or> (192 \<le> code c \<and> code c \<le> 222)"
    and low: "toLowerCase_char c = char_of (code c + 32)"
    by (auto simp: toLowerCase_char_def Let_def split: if_splits)
  from range have "(code c + 32) mod 256 = code c + 32" "97 \<le> code c + 32"
    by auto
  then show ?thesis
    by (simp add: isLineTerminator_def code_char_of low)
qed

lemma clean_no_lineTerminator: "c \<in> set (clean line) \<Longrightarrow> \<not> isLineTerminator c"
  by (auto simp: clean_def toLowerCase_def toLowerCase_char_not_lineTerminator)

lemma length_match_pairs:
  "\<forall>c\<in>set s. \<not> isLineTerminator c \<Longrightarrow> length (match_pairs s) = (length s + 1) div 2"
  by (induction s rule: match_pairs.induct) simp_all

lemma nth_match_pairs:
  "\<forall>c\<in>set s. \<not> isLineTerminator c \<Longrightarrow> i < (length s + 1) div 2 \<Longrightarrow>
     match_pairs s ! i = take 2 (drop (2 * i) s)"
proof (induction s arbitrary: i rule: match_pairs.induct)
  case 1
  then show ?case by simp
next
  case (2 c)
  then show ?case by simp
next
  case (3 c d cs)
  show ?case
  proof (cases i)
    case 0
    then show ?thesis
      using "3.prems" by simp
  next
    case (Suc j)
    then have "j < (length cs + 1) div 2"
      using "3.prems"(2) by simp
    then have "match_pairs cs ! j = take 2 (drop (2 * j) cs)"
      using "3.IH"(3) "3.prems"(1) by simp
    then show ?thesis
      using "3.prems"(1) Suc by simp
  qed
qed

lemma hexToBytes_chunks:
  assumes "s \<noteq> []" "\<forall>c\<in>set s. \<not> isLineTerminator c"
  shows "\<exists>bytes. hexToBytes s = Inr bytes \<and> length bytes = (length s + 1) div 2 \<and>
           (\<forall>i<length bytes. bytes ! i = parseInt16 (take 2 (drop (2 * i) s)))"
proof -
  have len: "length (match_pairs s) = (length s + 1) div 2"
    using assms(2) by (rule length_match_pairs)
  moreover have "0 < (length s + 1) div 2"
    using assms(1) by (cases s) simp_all
  ultimately obtain m ms where ms: "match_pairs s = m # ms"
    by (cases "match_pairs s") simp_all
  then have bytes: "hexToBytes s = Inr (map parseInt16 (match_pairs s))"
    by (simp add: hexToBytes_def)
  have "map parseInt16 (match_pairs s) ! i = parseInt16 (take 2 (drop (2 * i) s))"
    if "i < length (match_pairs s)" for i
    using that nth_match_pairs [OF assms(2), of i] len by simp
  then show ?thesis
    using bytes len by simp
qed

text \<open>
  Claim C2, as the code has it. The hex decoder validates nothing. For every input line
  whose cleaned string (white space removed, lower case) is not empty, \<open>hexToBytes\<close>
  succeeds, also when that string has odd length or holds characters that are no
  hexadecimal digits. It returns one number for every two characters and one more for a
  last single character; number \<open>i\<close> is what \<^verbatim>\<open>parseInt\<close> with radix 16 makes of the
  characters \<open>2 * i\<close> and \<open>2 * i + 1\<close> of the cleaned string, and \<open>main\<close> goes on to decode
  these numbers. The only failure is the TypeError on an empty cleaned string.
\<close>

theorem hexToBytes_no_validation:
  "(clean line \<noteq> [] \<longrightarrow>
      (\<exists>bytes. hexToBytes (clean line) = Inr bytes \<and>
         length bytes = (length (clean line) + 1) div 2 \<and>
         (\<forall>i<length bytes. bytes ! i = parseInt16 (take 2 (drop (2 * i) (clean line)))) \<and>
         main line = decode bytes)) \<and>
   (clean line = [] \<longrightarrow> hexToBytes (clean line) = Inl TypeError)"
proof (cases "clean line = []")
  case True
  then show ?thesis
    by (simp add: hexToBytes_def)
next
  case False
  then obtain bytes where bytes: "hexToBytes (clean line) = Inr bytes"
    "length bytes = (length (clean line) + 1) div 2"
    "\<forall>i<length bytes. bytes ! i = parseInt16 (take 2 (drop (2 * i) (clean line)))"
    using hexToBytes_chunks [of "clean line"] clean_no_lineTerminator [of _ line] by blast
  have "main line = decode bytes"
    by (simp add: main_def bytes(1))
  then show ?thesis
    using False bytes by blast
qed

theorem hexToBytes_no_validation_witness:
  "clean ''AB CD E'' \<noteq> [] \<and>
   (\<exists>bytes. hexToBytes (clean ''AB CD E'') = Inr bytes \<and> length bytes = 3 \<and>
      bytes ! 0 = Num 0xAB \<and> bytes ! 1 = Num 0xCD \<and> bytes ! 2 = Num 0x0E \<and>
      main ''AB CD E'' = decode bytes) \<and>
   clean [] = [] \<and> hexToBytes (clean []) = Inl TypeError"
proof -
  have c: "clean ''AB CD E'' = ''abcde''"
    by (simp add: clean_def toLowerCase_def toLowerCase_char_def isWhiteSpace_def code_def
        char_eq_code [of "char_of _"] code_char_of)
  have n: "(length (clean ''AB CD E'') + 1) div 2 = 3"
    by (simp add: c)
  have ne: "clean ''AB CD E'' \<noteq> []"
    by (simp add: c)
  have e: "clean [] = []"
    by (simp add: clean_def toLowerCase_def)
  have p: "parseInt16 ''ab'' = Num 0xAB" "parseInt16 ''cd'' = Num 0xCD" "parseInt16 ''e'' = Num 0x0E"
    by (simp_all add: parseInt16_def isWhiteSpace_def isHexDigit_def hexDigitValue_def
        hexValue_def code_def)
  obtain bytes where bytes: "hexToBytes (clean ''AB CD E'') = Inr bytes" "length bytes = 3"
    "\<forall>i<length bytes. bytes ! i = parseInt16 (take 2 (drop (2 * i) (clean ''AB CD E'')))"
    "main ''AB CD E'' = decode bytes"
    using ne hexToBytes_no_validation [of "''AB CD E''"] unfolding n by blast
  have "bytes ! 0 = Num 0xAB" "bytes ! 1 = Num 0xCD" "bytes ! 2 = Num 0x0E"
    using bytes(3) by (simp_all add: bytes(2) c p)
  then show ?thesis
    using ne e bytes(1,2,4) hexToBytes_no_validation [of "[]"] by blast
qed

text \<open>
  Claim C2, as the specification states it, fails: the cleaned form of \<^verbatim>\<open>AB CD E\<close> has odd
  length and decodes to the three numbers 0xAB, 0xCD and 0x0E, and \<^verbatim>\<open>zz\<close>, which holds no
  hexadecimal digit, decodes to \<^verbatim>\<open>NaN\<close>.
\<close>

theorem odd_hex_not_rejected:
  "odd (length (clean ''AB CD E'')) \<and>
   hexToBytes (clean ''AB CD E'') = Inr [Num 0xAB, Num 0xCD, Num 0x0E] \<and>
   \<not> isHexDigit CHR ''z'' \<and> hexToBytes (clean ''zz'') = Inr [NaN]"
  by code_simp

text \<open>
  Claim C10. On the empty string \<open>hexToBytes\<close> throws a TypeError: the match is
  \<^verbatim>\<open>null\<close>, there is no empty array and no other error. An input line of white space
  only is cleaned to the empty string, so \<open>main\<close> ends with that TypeError before it prints
  anything.
\<close>

theorem blank_input_TypeError:
  "hexToBytes [] = Inl TypeError \<and>
   ((\<forall>c\<in>set line. isWhiteSpace c) \<longrightarrow>
      clean line = [] \<and> hexToBytes (clean line) = Inl TypeError \<and>
      main line = \<lparr>trace = [], thrown = Some TypeError\<rparr>)"
  by (simp add: clean_blank hexToBytes_def main_def)

theorem blank_input_TypeError_witness:
  "list_all isWhiteSpace blankLine \<and> clean blankLine = [] \<and>
   hexToBytes (clean blankLine) = Inl TypeError \<and>
   main blankLine = \<lparr>trace = [], thrown = Some TypeError\<rparr>"
proof -
  have blank: "list_all isWhiteSpace blankLine"
    by (simp add: blankLine_def isWhiteSpace_def code_def)
  then have "\<forall>c\<in>set blankLine. isWhiteSpace c"
    by (simp only: list_all_iff)
  then show ?thesis
    using blank blank_input_TypeError [of blankLine] by simp
qed

section \<open>Hardware addresses\<close>

lemma below_16:
  "d < 16 \<Longrightarrow> d \<in> set [0, 1, 2, 3, 4, 5, 6, 7, 8, 9, 10, 11, 12, 13, 14, 15::nat]"
  by (simp only: set_simps insert_iff empty_iff) arith

lemma lower_digit_table:
  "\<forall>d\<in>set [0, 1, 2, 3, 4, 5, 6, 7, 8, 9, 10, 11, 12, 13, 14, 15::nat].
      \<not> isWhiteSpace (lowerHexDigit d) \<and> \<not> isLineTerminator (lowerHexDigit d) \<and>
      lowerHexDigit d \<noteq> CHR ''+'' \<and> lowerHexDigit d \<noteq> CHR ''-'' \<and>
      lowerHexDigit d \<noteq> CHR ''x'' \<and> lowerHexDigit d \<noteq> CHR ''X'' \<and>
      hexDigitValue (lowerHexDigit d) = Some d"
  by (simp add: lowerHexDigit_def isWhiteSpace_def isLineTerminator_def hexDigitValue_def code_def)

lemma upper_digit_table:
  "\<forall>d\<in>set [0, 1, 2, 3, 4, 5, 6, 7, 8, 9, 10, 11, 12, 13, 14, 15::nat].
      \<not> isWhiteSpace (upperHexDigit d) \<and> \<not> isLineTerminator (upperHexDigit d) \<and>
      upperHexDigit d \<noteq> CHR ''+'' \<and> upperHexDigit d \<noteq> CHR ''-'' \<and>
      upperHexDigit d \<noteq> CHR ''x'' \<and> upperHexDigit d \<noteq> CHR ''X'' \<and>
      hexDigitValue (upperHexDigit d) = Some d"
  by (simp add: upperHexDigit_def isWhiteSpace_def isLineTerminator_def hexDigitValue_def code_def)

lemma digitChar_table:
  "\<forall>d\<in>set [0, 1, 2, 3, 4, 5, 6, 7, 8, 9, 10, 11, 12, 13, 14, 15::nat].
     toUpperCase_char (digitChar d) = upperHexDigit d"
  by (simp add: toUpperCase_char_def digitChar_def upperHexDigit_def code_char_of char_eq_code)
    (simp add: code_def)

lemma hexDigitOf_facts:
  assumes "hexDigitOf c d"
  shows "\<not> isWhiteSpace c" "\<not> isLineTerminator c" "c \<noteq> CHR ''+''" "c \<noteq> CHR ''-''"
    "c \<noteq> CHR ''x''" "c \<noteq> CHR ''X''" "hexDigitValue c = Some d"
proof -
  have d: "d \<in> set [0, 1, 2, 3, 4, 5, 6, 7, 8, 9, 10, 11, 12, 13, 14, 15::nat]"
    using assms below_16 [of d] by (simp only: hexDigitOf_def)
  have c: "c = lowerHexDigit d \<or> c = upperHexDigit d"
    using assms by (simp only: hexDigitOf_def)
  have "\<not> isWhiteSpace c \<and> \<not> isLineTerminator c \<and> c \<noteq> CHR ''+'' \<and> c \<noteq> CHR ''-'' \<and>
      c \<noteq> CHR ''x'' \<and> c \<noteq> CHR ''X'' \<and> hexDigitValue c = Some d"
    using c lower_digit_table [rule_format, OF d] upper_digit_table [rule_format, OF d]
    by (elim disjE) simp_all
  then show "\<not> isWhiteSpace c" "\<not> isLineTerminator c" "c \<noteq> CHR ''+''" "c \<noteq> CHR ''-''"
    "c \<noteq> CHR ''x''" "c \<noteq> CHR ''X''" "hexDigitValue c = Some d"
    by simp_all
qed

lemma digitChar_0: "digitChar 0 = CHR ''0''"
  by (simp add: digitChar_def char_eq_code code_char_of) (simp add: code_def)

lemma toUpperCase_digitChar: "d < 16 \<Longrightarrow> toUpperCase_char (digitChar d) = upperHexDigit d"
  using digitChar_table below_16 [of d] by blast

lemma parseInt16_pair:
  assumes a: "hexDigitOf a hi" and b: "hexDigitOf b lo"
  shows "parseInt16 [a, b] = Num (int (16 * hi + lo))"
proof -
  note fa = hexDigitOf_facts [OF a] and fb = hexDigitOf_facts [OF b]
  have "isHexDigit a" "isHexDigit b"
    using fa(7) fb(7) by (simp_all add: isHexDigit_def)
  then show ?thesis
    using fa fb by (simp add: parseInt16_def hexValue_def)
qed

lemma match_pairs_hexOf:
  "hexOf h ws \<Longrightarrow> map parseInt16 (match_pairs h) = rawBuffer ws"
proof (induction h ws rule: hexOf.induct)
  case 1
  then show ?case by (simp add: rawBuffer_def)
next
  case (2 a b cs w ws)
  then have a: "hexDigitOf a (unat w div 16)" and b: "hexDigitOf b (unat w mod 16)"
    and rest: "map parseInt16 (match_pairs cs) = rawBuffer ws"
    by simp_all
  have "16 * (unat w div 16) + unat w mod 16 = unat w"
    by simp
  then have "parseInt16 [a, b] = Num (uint w)"
    using parseInt16_pair [OF a b] by simp
  then show ?case
    using hexDigitOf_facts(2) [OF a] hexDigitOf_facts(2) [OF b] rest
    by (simp add: rawBuffer_def)
qed simp_all

lemma hexToBytes_hexOf:
  assumes "hexOf h ws" "ws \<noteq> []"
  shows "hexToBytes h = Inr (rawBuffer ws)"
proof -
  have "map parseInt16 (match_pairs h) = rawBuffer ws"
    using assms(1) by (rule match_pairs_hexOf)
  moreover from this have "match_pairs h \<noteq> []"
    using assms(2) by (auto simp: rawBuffer_def)
  ultimately show ?thesis
    by (cases "match_pairs h") (simp_all add: hexToBytes_def)
qed

lemma digits_16_byte:
  assumes "n < 256"
  shows "padStart 2 CHR ''0'' (digits 16 n) = [digitChar (n div 16), digitChar (n mod 16)]"
proof (cases "n < 16")
  case True
  then have "digits 16 n = [digitChar n]"
    by (simp add: digits.simps)
  then show ?thesis
    using True by (simp add: padStart_def flip: digitChar_0)
next
  case False
  have "n div 16 < 16"
    using assms by simp
  then have "digits 16 (n div 16) = [digitChar (n div 16)]"
    by (simp add: digits.simps [of 16 "n div 16"])
  then have "digits 16 n = [digitChar (n div 16), digitChar (n mod 16)]"
    using False by (simp add: digits.simps [of 16 n])
  then show ?thesis
    by (simp add: padStart_def)
qed

lemma byte_text:
  fixes w :: "8 word"
  shows "toUpperCase (padStart 2 CHR ''0'' (toString 16 (Num (uint w)))) = upperPair w"
proof -
  have n: "unat w < 256"
    using unsigned_less [of w, where 'a = nat] by simp
  have "toString 16 (Num (uint w)) = digits 16 (unat w)"
    by (simp add: toString_def)
  then show ?thesis
    using n by (simp add: digits_16_byte toUpperCase_def upperPair_def toUpperCase_digitChar)
qed

lemma bytesToMAC_rawBuffer: "bytesToMAC (rawBuffer ws) = colonHex ws"
  by (induction ws rule: colonHex.induct)
    (simp_all add: bytesToMAC_def rawBuffer_def byte_text)

text \<open>
  Claim C8. For every sequence of 6 bytes and every string of 12 hexadecimal digits that
  writes it, in either case, \<open>hexToBytes\<close> returns the bytes and \<open>bytesToMAC\<close> of them is
  the address as upper-case pairs of digits separated by colons.
\<close>

theorem mac_round_trip:
  assumes "length ws = 6" and "hexOf h ws"
  shows "hexToBytes h = Inr (rawBuffer ws) \<and>
         map_sum id bytesToMAC (hexToBytes h) = Inr (colonHex ws)"
proof -
  have "ws \<noteq> []"
    using assms(1) by auto
  then show ?thesis
    using hexToBytes_hexOf [OF assms(2)] bytesToMAC_rawBuffer by simp
qed

theorem mac_round_trip_witness:
  "length macSample = 6 \<and> hexOf ''deAdBEef001A'' macSample \<and>
   hexToBytes ''deAdBEef001A'' = Inr (rawBuffer macSample) \<and>
   map_sum id bytesToMAC (hexToBytes ''deAdBEef001A'') = Inr ''DE:AD:BE:EF:00:1A''"
proof -
  have len: "length macSample = 6"
    by (simp add: macSample_def)
  have hex: "hexOf ''deAdBEef001A'' macSample"
    by (simp add: macSample_def hexDigitOf_def lowerHexDigit_def upperHexDigit_def)
  have shown: "colonHex macSample = ''DE:AD:BE:EF:00:1A''"
    by (simp add: macSample_def upperPair_def upperHexDigit_def)
  show ?thesis
    using len hex mac_round_trip [OF len hex] unfolding shown by blast
qed

section \<open>The 32-bit numbers of TCP\<close>

lemma toInt32_range: "- 2147483648 \<le> i \<Longrightarrow> i < 2147483648 \<Longrightarrow> toInt32 (Num i) = i"
  by (simp add: toInt32_def sint_word_of_int_small)

lemma js_bor_range:
  assumes "- 2147483648 \<le> x" "x < 2147483648" "- 2147483648 \<le> y" "y < 2147483648"
  shows "js_bor (Num x) (Num y) = Num (x OR y)"
  using assms by (simp add: js_bor_def toInt32_range)

lemma or_below_shift:
  fixes q y :: int
  assumes "0 \<le> y" "y < 2 ^ n"
  shows "q * 2 ^ n OR y = q * 2 ^ n + y"
proof -
  have "concat_bit n y q = take_bit n y + push_bit n q"
    by (rule concat_bit_eq)
  moreover have "take_bit n y = y"
    using assms by (simp add: take_bit_int_eq_self)
  ultimately show ?thesis
    by (simp add: concat_bit_def push_bit_eq_mult or.commute)
qed

lemma js_shl_24:
  assumes "0 \<le> a" "a < 256"
  shows "js_shl (Num a) 24 = Num ((if a < 128 then a else a - 256) * 16777216)"
proof -
  have t: "toInt32 (Num a) = a"
    using assms by (intro toInt32_range) auto
  have shl: "js_shl (Num a) 24 = Num (sint (word_of_int (a * 16777216) :: 32 word))"
    by (simp only: js_shl_def t push_bit_eq_mult) simp
  show ?thesis
  proof (cases "a < 128")
    case True
    then have "sint (word_of_int (a * 16777216) :: 32 word) = a * 16777216"
      using assms by (intro sint_word_of_int_small) auto
    then show ?thesis
      using True shl by simp
  next
    case False
    have e: "a * 16777216 = (a - 256) * 16777216 + 2 ^ 32"
      by simp
    have z: "(word_of_int (2 ^ 32) :: 32 word) = 0"
      by simp
    have "(word_of_int (a * 16777216) :: 32 word) =
        word_of_int ((a - 256) * 16777216) + word_of_int (2 ^ 32)"
      by (subst e) (rule wi_hom_add [symmetric])
    also have "\<dots> = word_of_int ((a - 256) * 16777216)"
      by (simp only: z add_0_right)
    finally have "sint (word_of_int (a * 16777216) :: 32 word) =
        sint (word_of_int ((a - 256) * 16777216) :: 32 word)"
      by (rule arg_cong)
    also have "\<dots> = (a - 256) * 16777216"
      using False assms by (intro sint_word_of_int_small) auto
    finally show ?thesis
      using False shl by simp
  qed
qed


lemma js_be32:
  assumes a: "0 \<le> a" "a < 256" and b: "0 \<le> b" "b < 256"
    and c: "0 \<le> c" "c < 256" and d: "0 \<le> d" "d < 256"
  shows "js_bor (js_bor (js_bor (js_shl (Num a) 24) (js_shl (Num b) 16)) (js_shl (Num c) 8))
           (Num d) =
         Num (16777216 * a + 65536 * b + 256 * c + d - (if a < 128 then 0 else 4294967296))"
proof -
  define s where "s = (if a < 128 then a else a - 256)"
  have s: "- 128 \<le> s" "s < 128"
    using a by (simp_all add: s_def)
  have x1: "js_shl (Num a) 24 = Num (s * 16777216)"
    using js_shl_24 [OF a] by (simp add: s_def)
  have x2: "js_shl (Num b) 16 = Num (b * 65536)"
    using js_shl_small [of b 16] b by simp
  have x3: "js_shl (Num c) 8 = Num (c * 256)"
    using js_shl_small [of c 8] c by simp
  have o1: "s * 16777216 OR b * 65536 = s * 16777216 + b * 65536"
    using or_below_shift [of "b * 65536" 24 s] b by simp
  have o2: "(s * 16777216 + b * 65536) OR c * 256 = s * 16777216 + b * 65536 + c * 256"
    using or_below_shift [of "c * 256" 16 "s * 256 + b"] c by (simp add: algebra_simps)
  have o3: "(s * 16777216 + b * 65536 + c * 256) OR d = s * 16777216 + b * 65536 + c * 256 + d"
    using or_below_shift [of d 8 "s * 65536 + b * 256 + c"] d by (simp add: algebra_simps)
  have "js_bor (Num (s * 16777216)) (Num (b * 65536)) = Num (s * 16777216 + b * 65536)"
    using s b by (simp add: js_bor_range o1)
  moreover have "js_bor (Num (s * 16777216 + b * 65536)) (Num (c * 256)) =
      Num (s * 16777216 + b * 65536 + c * 256)"
    using s b c by (simp add: js_bor_range o2)
  moreover have "js_bor (Num (s * 16777216 + b * 65536 + c * 256)) (Num d) =
      Num (s * 16777216 + b * 65536 + c * 256 + d)"
    using s b c d by (simp add: js_bor_range o3)
  ultimately show ?thesis
    by (simp add: x1 x2 x3) (simp add: s_def)
qed

text \<open>What the code computes for every header: the unsigned number when the first of the
  four bytes is below 0x80, and that number less \<open>2 ^ 32\<close> otherwise.\<close>

lemma parseTCPSegment_numbers:
  fixes ws :: "8 word list"
  assumes len: "20 \<le> length ws"
  shows "\<exists>tcp. parseTCPSegment (rawBuffer ws) = Inr tcp \<and>
     tcp_seqNum tcp =
       Num (be32 (ws ! 4) (ws ! 5) (ws ! 6) (ws ! 7) -
            (if uint (ws ! 4) < 128 then 0 else 4294967296)) \<and>
     tcp_ackNum tcp =
       Num (be32 (ws ! 8) (ws ! 9) (ws ! 10) (ws ! 11) -
            (if uint (ws ! 8) < 128 then 0 else 4294967296))"
proof -
  have idx: "\<And>i. i < 20 \<Longrightarrow> rawBuffer ws ! i = Num (uint (ws ! i))"
    using len by (simp add: nth_rawBuffer)
  have b: "\<And>w :: 8 word. 0 \<le> uint w \<and> uint w < 256"
    by (simp add: byte_facts)
  show ?thesis
    using len
    by (simp add: parseTCPSegment_def Let_def idx be32_def
        js_be32 [OF b [THEN conjunct1] b [THEN conjunct2] b [THEN conjunct1] b [THEN conjunct2]
          b [THEN conjunct1] b [THEN conjunct2] b [THEN conjunct1] b [THEN conjunct2]])
qed

text \<open>
  Claim C3 does not hold of the code. The claim asks for the sequence and acknowledgment
  numbers as unsigned 32-bit integers; the code joins the four bytes with \<^verbatim>\<open><<\<close> and
  \<^verbatim>\<open>|\<close>, whose result is a signed 32-bit integer. On the header \<open>tcpSample\<close>, with bytes
  80 00 00 01 and FF FF FF FF, the code returns -2147483647 and -1 where the unsigned
  numbers are 2147483649 and 4294967295.
\<close>

theorem seqNum_negative_sample:
  "(case parseTCPSegment (rawBuffer tcpSample) of
      Inl e \<Rightarrow> False
    | Inr tcp \<Rightarrow> tcp_seqNum tcp = Num (- 2147483647) \<and> tcp_ackNum tcp = Num (- 1))"
  by (simp add: parseTCPSegment_def rawBuffer_def tcpSample_def Let_def js_bor_def js_shl_def
      toInt32_def)

end
